theory Spec2Isabelle
  imports Main "HOL-Library.Word" "HOL-Library.Code_Target_Numeral"
begin

text \<open>
  The class \<open>OAuthManager\<close> of \<open>src/oauth.ts\<close>: the authorization-code exchange,
  the tokens file, the refresh before use. The class is modelled with the parts of
  the JavaScript platform it stands on: strings, \<open>JSON.stringify\<close> and
  \<open>JSON.parse\<close>, \<open>URLSearchParams\<close>, the file, the clock and \<open>fetch\<close>.
\<close>

section \<open>JavaScript strings\<close>

text \<open>
  A JavaScript string is a sequence of UTF-16 code units. The source's string
  constants are ASCII; \<open>str\<close> turns an ASCII literal into code units.
\<close>

type_synonym jschar = "16 word"
type_synonym jsstring = "jschar list"

abbreviation ch :: "char \<Rightarrow> jschar" where
  "ch c \<equiv> of_nat (of_char c)"

definition str :: "string \<Rightarrow> jsstring" where
  "str s = map (\<lambda>c. ch c) s"

definition is_digit :: "jschar \<Rightarrow> bool" where
  "is_digit c \<longleftrightarrow> 48 \<le> unat c \<and> unat c \<le> 57"

definition digit_char :: "nat \<Rightarrow> jschar" where
  "digit_char d = of_nat (48 + d)"

definition digit_val :: "jschar \<Rightarrow> nat" where
  "digit_val c = unat c - 48"

text \<open>Decimal digits of a natural number, most significant first.\<close>

fun digits_of :: "nat \<Rightarrow> jsstring" where
  "digits_of n = (if n < 10 then [digit_char n] else digits_of (n div 10) @ [digit_char (n mod 10)])"

declare digits_of.simps [simp del]

definition nat_of_digits :: "jsstring \<Rightarrow> nat" where
  "nat_of_digits ds = foldl (\<lambda>a c. 10 * a + digit_val c) 0 ds"

definition is_high_surrogate :: "jschar \<Rightarrow> bool" where
  "is_high_surrogate c \<longleftrightarrow> 0xD800 \<le> unat c \<and> unat c \<le> 0xDBFF"

definition is_low_surrogate :: "jschar \<Rightarrow> bool" where
  "is_low_surrogate c \<longleftrightarrow> 0xDC00 \<le> unat c \<and> unat c \<le> 0xDFFF"

section \<open>JSON values\<close>

text \<open>
  The values a record can hold: those \<open>JSON.parse\<close> can return, and an infinity,
  which the sum that computes an expiry can overflow to. A number is kept as an
  exact decimal: \<open>JNum m k\<close> stands for \<open>m / 10 ^ k\<close>, with \<open>k = 0\<close> for an integer
  and \<open>m\<close> not divisible by ten otherwise; \<open>JInfinity neg\<close> is an infinity, the
  negative one when \<open>neg\<close> holds. Where the program computes with numbers the
  rounding to binary64 is modelled (see the section on arithmetic); reading and
  writing a number in a text is modelled on the exact decimal, which is what
  JavaScript does for the integers of magnitude up to \<open>2 ^ 53\<close>, where the
  millisecond timestamps of this program live.
  An object is its list of properties in JavaScript's property order.
  A property value that JavaScript reads as \<open>undefined\<close> is \<open>None\<close> of
  type \<open>json option\<close>.
\<close>

datatype json =
    JNull
  | JBool bool
  | JNum int nat
  | JInfinity bool
  | JStr jsstring
  | JArr "json list"
  | JObj "(jsstring \<times> json) list"

abbreviation JInt :: "int \<Rightarrow> json" where
  "JInt n \<equiv> JNum n 0"

text \<open>ToBoolean.\<close>

fun truthy :: "json \<Rightarrow> bool" where
  "truthy JNull = False"
| "truthy (JBool b) = b"
| "truthy (JNum m k) = (m \<noteq> 0)"
| "truthy (JInfinity neg) = True"
| "truthy (JStr s) = (s \<noteq> [])"
| "truthy (JArr xs) = True"
| "truthy (JObj ps) = True"

text \<open>
  Reading a property by name. Only plain data properties are modelled, which is
  all the four names the program reads can be; on a value that is not an object
  such a read gives \<open>undefined\<close> (on \<open>null\<close> JavaScript throws, and the program
  guards every read against it).
\<close>

fun get_prop :: "json \<Rightarrow> jsstring \<Rightarrow> json option" where
  "get_prop (JObj ps) k = map_of ps k"
| "get_prop v k = None"

subsection \<open>Property order of objects\<close>

text \<open>
  An array index is the canonical decimal form of an integer below \<open>2 ^ 32 - 1\<close>.
  Such keys come first in an object, in ascending order; all other keys follow
  in insertion order. Defining a property that exists replaces its value in place.
\<close>

definition is_array_index :: "jsstring \<Rightarrow> bool" where
  "is_array_index k \<longleftrightarrow>
     k \<noteq> [] \<and> list_all is_digit k \<and> (k = [digit_char 0] \<or> hd k \<noteq> digit_char 0)
     \<and> nat_of_digits k < 2 ^ 32 - 1"

fun insert_index :: "jsstring \<Rightarrow> json \<Rightarrow> (jsstring \<times> json) list \<Rightarrow> (jsstring \<times> json) list" where
  "insert_index k v [] = [(k, v)]"
| "insert_index k v ((k', v') # ps) =
     (if is_array_index k' \<and> nat_of_digits k' < nat_of_digits k
      then (k', v') # insert_index k v ps
      else (k, v) # (k', v') # ps)"

fun replace_value :: "jsstring \<Rightarrow> json \<Rightarrow> (jsstring \<times> json) list \<Rightarrow> (jsstring \<times> json) list" where
  "replace_value k v [] = []"
| "replace_value k v ((k', v') # ps) =
     (if k' = k then (k, v) # ps else (k', v') # replace_value k v ps)"

definition define_property :: "(jsstring \<times> json) list \<Rightarrow> jsstring \<Rightarrow> json \<Rightarrow> (jsstring \<times> json) list" where
  "define_property ps k v =
     (if map_of ps k \<noteq> None then replace_value k v ps
      else if is_array_index k then insert_index k v ps
      else ps @ [(k, v)])"

text \<open>
  An object literal \<open>{k1: v1, ...}\<close>: the properties in the order written. A property
  whose value is \<open>undefined\<close> reads as \<open>undefined\<close> and is skipped by
  \<open>JSON.stringify\<close>, exactly as a property that is not there, so it is left out.
\<close>

fun object_literal :: "(jsstring \<times> json option) list \<Rightarrow> json" where
  "object_literal fs =
     JObj (foldl (\<lambda>ps (k, v). case v of None \<Rightarrow> ps | Some x \<Rightarrow> define_property ps k x) [] fs)"

section \<open>JSON.stringify\<close>

definition hex_digit :: "nat \<Rightarrow> jschar" where
  "hex_digit n = (if n < 10 then of_nat (48 + n) else of_nat (87 + n))"

definition unicode_escape :: "jschar \<Rightarrow> jsstring" where
  "unicode_escape c =
     (let n = unat c in
      [0x5C, ch CHR ''u'', hex_digit (n div 4096), hex_digit (n div 256 mod 16),
       hex_digit (n div 16 mod 16), hex_digit (n mod 16)])"

text \<open>One code unit that is not half of a surrogate pair, as QuoteJSONString writes it.\<close>

definition quote_unit :: "jschar \<Rightarrow> jsstring" where
  "quote_unit c =
     (if c = 0x08 then [0x5C, ch CHR ''b'']
      else if c = 0x09 then [0x5C, ch CHR ''t'']
      else if c = 0x0A then [0x5C, ch CHR ''n'']
      else if c = 0x0C then [0x5C, ch CHR ''f'']
      else if c = 0x0D then [0x5C, ch CHR ''r'']
      else if c = 0x22 then [0x5C, 0x22]
      else if c = 0x5C then [0x5C, 0x5C]
      else if unat c < 0x20 \<or> is_high_surrogate c \<or> is_low_surrogate c then unicode_escape c
      else [c])"

fun quote_units :: "jsstring \<Rightarrow> jsstring" where
  "quote_units [] = []"
| "quote_units [c] = quote_unit c"
| "quote_units (c # d # cs) =
     (if is_high_surrogate c \<and> is_low_surrogate d then c # d # quote_units cs
      else quote_unit c @ quote_units (d # cs))"

definition quote_json :: "jsstring \<Rightarrow> jsstring" where
  "quote_json s = 0x22 # quote_units s @ [0x22]"

text \<open>
  Number::toString on an exact decimal. With \<open>ds\<close> the significant digits and
  \<open>n\<close> the position of the decimal point after the first \<open>n\<close> digits.
\<close>

fun strip_zeros :: "nat \<Rightarrow> nat" where
  "strip_zeros m = (if m = 0 \<or> m mod 10 \<noteq> 0 then m else strip_zeros (m div 10))"

declare strip_zeros.simps [simp del]

definition show_int :: "int \<Rightarrow> jsstring" where
  "show_int i = (if i < 0 then ch CHR ''-'' # digits_of (nat (- i)) else digits_of (nat i))"

definition exponent_form :: "jsstring \<Rightarrow> int \<Rightarrow> jsstring" where
  "exponent_form ds n =
     (hd ds # (if length ds = 1 then [] else ch CHR ''.'' # tl ds))
     @ [ch CHR ''e'', if n - 1 < 0 then ch CHR ''-'' else ch CHR ''+'']
     @ digits_of (nat \<bar>n - 1\<bar>)"

definition number_to_string :: "int \<Rightarrow> nat \<Rightarrow> jsstring" where
  "number_to_string m k =
     (if m = 0 then [digit_char 0]
      else
        let a = nat \<bar>m\<bar>;
            ds = digits_of (strip_zeros a);
            n = int (length (digits_of a)) - int k;
            body =
              (if int (length ds) \<le> n \<and> n \<le> 21 then ds @ replicate (nat n - length ds) (digit_char 0)
               else if 0 < n \<and> n \<le> 21 then take (nat n) ds @ ch CHR ''.'' # drop (nat n) ds
               else if - 6 < n \<and> n \<le> 0 then
                 digit_char 0 # ch CHR ''.'' # replicate (nat (- n)) (digit_char 0) @ ds
               else exponent_form ds n)
        in (if m < 0 then ch CHR ''-'' # body else body))"

text \<open>
  \<open>JSON.stringify(value, null, 2)\<close>: every nesting level is indented by two
  spaces more, a key is followed by a colon and a space. A number that is not
  finite is written as \<open>null\<close>.
\<close>

definition newline_indent :: "nat \<Rightarrow> jsstring" where
  "newline_indent d = 0x0A # replicate (2 * d) 0x20"

fun join :: "jsstring \<Rightarrow> jsstring list \<Rightarrow> jsstring" where
  "join sep [] = []"
| "join sep [x] = x"
| "join sep (x # y # ys) = x @ sep @ join sep (y # ys)"

fun serialize :: "nat \<Rightarrow> json \<Rightarrow> jsstring" where
  "serialize d JNull = str ''null''"
| "serialize d (JBool b) = (if b then str ''true'' else str ''false'')"
| "serialize d (JNum m k) = number_to_string m k"
| "serialize d (JInfinity neg) = str ''null''"
| "serialize d (JStr s) = quote_json s"
| "serialize d (JArr xs) =
     (if xs = [] then str ''[]''
      else ch CHR ''['' # newline_indent (Suc d)
           @ join (ch CHR '','' # newline_indent (Suc d)) (map (serialize (Suc d)) xs)
           @ newline_indent d @ [ch CHR '']''])"
| "serialize d (JObj ps) =
     (if ps = [] then str ''{}''
      else ch CHR ''{'' # newline_indent (Suc d)
           @ join (ch CHR '','' # newline_indent (Suc d))
               (map (\<lambda>p. quote_json (fst p) @ [ch CHR '':'', 0x20] @ serialize (Suc d) (snd p)) ps)
           @ newline_indent d @ [ch CHR ''}''])"

definition JSON_stringify :: "json \<Rightarrow> jsstring" where
  "JSON_stringify v = serialize 0 v"

section \<open>JSON.parse\<close>

subsection \<open>Tokens\<close>

datatype token =
    TLBrace | TRBrace | TLBracket | TRBracket | TColon | TComma
  | TString jsstring
  | TNumber int nat
  | TTrue | TFalse | TNull

definition is_json_space :: "jschar \<Rightarrow> bool" where
  "is_json_space c \<longleftrightarrow> c = 0x20 \<or> c = 0x09 \<or> c = 0x0A \<or> c = 0x0D"

definition hex_val :: "jschar \<Rightarrow> nat option" where
  "hex_val c =
     (let n = unat c in
      if 48 \<le> n \<and> n \<le> 57 then Some (n - 48)
      else if 97 \<le> n \<and> n \<le> 102 then Some (n - 87)
      else if 65 \<le> n \<and> n \<le> 70 then Some (n - 55)
      else None)"

definition hex4 :: "jschar \<Rightarrow> jschar \<Rightarrow> jschar \<Rightarrow> jschar \<Rightarrow> jschar option" where
  "hex4 a b c d =
     (case (hex_val a, hex_val b, hex_val c, hex_val d) of
        (Some w, Some x, Some y, Some z) \<Rightarrow> Some (of_nat (((w * 16 + x) * 16 + y) * 16 + z))
      | _ \<Rightarrow> None)"

definition simple_escape :: "jschar \<Rightarrow> jschar option" where
  "simple_escape e =
     (if e = 0x22 then Some 0x22
      else if e = 0x5C then Some 0x5C
      else if e = ch CHR ''/'' then Some (ch CHR ''/'')
      else if e = ch CHR ''b'' then Some 0x08
      else if e = ch CHR ''f'' then Some 0x0C
      else if e = ch CHR ''n'' then Some 0x0A
      else if e = ch CHR ''r'' then Some 0x0D
      else if e = ch CHR ''t'' then Some 0x09
      else None)"

definition push_unit :: "jschar \<Rightarrow> (jsstring \<times> jsstring) option \<Rightarrow> (jsstring \<times> jsstring) option" where
  "push_unit c r = (case r of None \<Rightarrow> None | Some (s, rest) \<Rightarrow> Some (c # s, rest))"

text \<open>
  The text of a string literal after its opening quote: the decoded string and
  what follows the closing quote. A code unit below U+0020 must be escaped.
\<close>

fun lex_string :: "jsstring \<Rightarrow> (jsstring \<times> jsstring) option" where
  "lex_string [] = None"
| "lex_string (c # cs) =
     (if c = 0x22 then Some ([], cs)
      else if c = 0x5C then
        (case cs of
           [] \<Rightarrow> None
         | e # es \<Rightarrow>
             if e = ch CHR ''u'' then
               (case es of
                  h1 # h2 # h3 # h4 # rest \<Rightarrow>
                    (case hex4 h1 h2 h3 h4 of
                       None \<Rightarrow> None
                     | Some u \<Rightarrow> push_unit u (lex_string rest))
                | _ \<Rightarrow> None)
             else
               (case simple_escape e of
                  None \<Rightarrow> None
                | Some u \<Rightarrow> push_unit u (lex_string es)))
      else if unat c < 0x20 then None
      else push_unit c (lex_string cs))"

text \<open>
  Scaling an exact decimal to its normal form: \<open>m / 10 ^ k\<close> with \<open>k = 0\<close>, or with
  \<open>m\<close> not divisible by ten.
\<close>

fun norm_dec :: "int \<Rightarrow> nat \<Rightarrow> int \<times> nat" where
  "norm_dec m 0 = (m, 0)"
| "norm_dec m (Suc k) = (if m mod 10 = 0 then norm_dec (m div 10) k else (m, Suc k))"

definition decimal :: "bool \<Rightarrow> jsstring \<Rightarrow> jsstring \<Rightarrow> int \<Rightarrow> int \<times> nat" where
  "decimal neg ip fp e =
     (let m = int (nat_of_digits (ip @ fp));
          s = (if neg then - m else m);
          k = int (length fp) - e
      in if k \<le> 0 then (s * 10 ^ nat (- k), 0) else norm_dec s (nat k))"

text \<open>
  A number token: an optional minus, an integer part without leading zero, an
  optional fraction, an optional exponent.
\<close>

definition lex_exponent :: "jsstring \<Rightarrow> (int \<times> jsstring) option" where
  "lex_exponent s =
     (case s of
        [] \<Rightarrow> Some (0, s)
      | c # cs \<Rightarrow>
          if c = ch CHR ''e'' \<or> c = ch CHR ''E'' then
            (let (neg, ds) =
               (case cs of
                  [] \<Rightarrow> (False, cs)
                | x # xs \<Rightarrow>
                    if x = ch CHR ''-'' then (True, xs)
                    else if x = ch CHR ''+'' then (False, xs)
                    else (False, cs))
             in if takeWhile is_digit ds = [] then None
                else
                  let e = int (nat_of_digits (takeWhile is_digit ds))
                  in Some (if neg then - e else e, dropWhile is_digit ds))
          else Some (0, s))"

definition lex_fraction :: "jsstring \<Rightarrow> (jsstring \<times> jsstring) option" where
  "lex_fraction s =
     (case s of
        [] \<Rightarrow> Some ([], s)
      | c # cs \<Rightarrow>
          if c = ch CHR ''.'' then
            (if takeWhile is_digit cs = [] then None
             else Some (takeWhile is_digit cs, dropWhile is_digit cs))
          else Some ([], s))"

definition lex_number :: "jsstring \<Rightarrow> ((int \<times> nat) \<times> jsstring) option" where
  "lex_number s =
     (let (neg, s1) =
        (case s of
           [] \<Rightarrow> (False, s)
         | c # cs \<Rightarrow> if c = ch CHR ''-'' then (True, cs) else (False, s));
          ip = takeWhile is_digit s1
      in if ip = [] \<or> (1 < length ip \<and> hd ip = digit_char 0) then None
         else
           (case lex_fraction (dropWhile is_digit s1) of
              None \<Rightarrow> None
            | Some (fp, s2) \<Rightarrow>
                (case lex_exponent s2 of
                   None \<Rightarrow> None
                 | Some (e, s3) \<Rightarrow> Some (decimal neg ip fp e, s3))))"

text \<open>What may follow the digits of an integer: nothing that continues the number.\<close>

definition ends_number :: "jsstring \<Rightarrow> bool" where
  "ends_number rest \<longleftrightarrow>
     rest = [] \<or> (\<not> is_digit (hd rest) \<and> hd rest \<noteq> ch CHR ''.''
                 \<and> hd rest \<noteq> ch CHR ''e'' \<and> hd rest \<noteq> ch CHR ''E'')"

lemma push_unit_Some:
  "push_unit c r = Some (s, rest) \<Longrightarrow> \<exists>s'. r = Some (s', rest)"
  by (auto simp: push_unit_def split: option.splits)

lemma lex_string_shorter:
  "lex_string cs = Some (s, rest) \<Longrightarrow> length rest < length cs"
proof (induction "length cs" arbitrary: cs s rule: less_induct)
  case less
  note IH = less.hyps
  show ?case
  proof (cases cs)
    case Nil
    with less.prems show ?thesis by simp
  next
    case outer: (Cons c cs')
    show ?thesis
    proof (cases "c = 0x22")
      case True
      with less.prems outer show ?thesis by simp
    next
      case nq: False
      show ?thesis
      proof (cases "c = 0x5C")
        case bs: True
        show ?thesis
        proof (cases cs')
          case Nil
          with less.prems outer nq bs show ?thesis by simp
        next
          case (Cons e es)
          show ?thesis
          proof (cases "e = ch CHR ''u''")
            case u: True
            from less.prems outer nq bs Cons u obtain h1 h2 h3 h4 r w
              where es: "es = h1 # h2 # h3 # h4 # r"
                and pu: "push_unit w (lex_string r) = Some (s, rest)"
              by (auto split: list.splits option.splits)
            from push_unit_Some [OF pu] obtain s' where "lex_string r = Some (s', rest)" ..
            moreover have "length r < length cs" using outer Cons es by simp
            ultimately have "length rest < length r" by (rule IH [rotated])
            with outer Cons es show ?thesis by simp
          next
            case nu: False
            from less.prems outer nq bs Cons nu obtain w
              where pu: "push_unit w (lex_string es) = Some (s, rest)"
              by (auto split: option.splits)
            from push_unit_Some [OF pu] obtain s' where "lex_string es = Some (s', rest)" ..
            moreover have "length es < length cs" using outer Cons by simp
            ultimately have "length rest < length es" by (rule IH [rotated])
            with outer Cons show ?thesis by simp
          qed
        qed
      next
        case nbs: False
        from less.prems outer nq nbs
        have pu: "push_unit c (lex_string cs') = Some (s, rest)"
          by (auto split: if_splits)
        from push_unit_Some [OF pu] obtain s' where "lex_string cs' = Some (s', rest)" ..
        moreover have "length cs' < length cs" using outer by simp
        ultimately have "length rest < length cs'" by (rule IH [rotated])
        with outer show ?thesis by simp
      qed
    qed
  qed
qed

lemma lex_exponent_shorter:
  "lex_exponent s = Some (e, rest) \<Longrightarrow> length rest \<le> length s"
  by (auto simp: lex_exponent_def Let_def length_dropWhile_le le_SucI
      split: list.splits if_splits prod.splits
      intro: order_trans [OF length_dropWhile_le])

lemma lex_fraction_shorter:
  "lex_fraction s = Some (fp, rest) \<Longrightarrow> length rest \<le> length s"
  by (auto simp: lex_fraction_def length_dropWhile_le le_SucI split: list.splits if_splits)

lemma lex_number_shorter:
  assumes "lex_number s = Some (v, rest)"
  shows "length rest < length s"
proof -
  obtain neg s1 where ns: "(case s of [] \<Rightarrow> (False, s)
      | c # cs \<Rightarrow> if c = ch CHR ''-'' then (True, cs) else (False, s)) = (neg, s1)"
    by (cases "case s of [] \<Rightarrow> (False, s)
      | c # cs \<Rightarrow> if c = ch CHR ''-'' then (True, cs) else (False, s)") auto
  have s1: "length s1 \<le> length s"
    using ns by (auto split: list.splits if_splits)
  from assms ns obtain fp s2 e where ip: "takeWhile is_digit s1 \<noteq> []"
    and fr: "lex_fraction (dropWhile is_digit s1) = Some (fp, s2)"
    and ex: "lex_exponent s2 = Some (e, rest)"
    by (auto simp: lex_number_def Let_def split: option.splits if_splits)
  have "length (takeWhile is_digit s1) + length (dropWhile is_digit s1) = length s1"
    by (metis length_append takeWhile_dropWhile_id)
  with ip have "length (dropWhile is_digit s1) < length s1"
    by (cases "takeWhile is_digit s1") auto
  with lex_fraction_shorter [OF fr] lex_exponent_shorter [OF ex] s1
  show ?thesis by linarith
qed

text \<open>Cutting the text into tokens; \<open>None\<close> when some code unit starts no token.\<close>

definition emit :: "token \<Rightarrow> token list option \<Rightarrow> token list option" where
  "emit t r = map_option (Cons t) r"

function tokenize :: "jsstring \<Rightarrow> token list option" where
  "tokenize [] = Some []"
| "tokenize (c # cs) =
     (if is_json_space c then tokenize cs
      else if c = ch CHR ''{'' then emit TLBrace (tokenize cs)
      else if c = ch CHR ''}'' then emit TRBrace (tokenize cs)
      else if c = ch CHR ''['' then emit TLBracket (tokenize cs)
      else if c = ch CHR '']'' then emit TRBracket (tokenize cs)
      else if c = ch CHR '':'' then emit TColon (tokenize cs)
      else if c = ch CHR '','' then emit TComma (tokenize cs)
      else if c = 0x22 then
        (case lex_string cs of
           None \<Rightarrow> None
         | Some (s, rest) \<Rightarrow> emit (TString s) (tokenize rest))
      else if c = ch CHR ''-'' \<or> is_digit c then
        (case lex_number (c # cs) of
           None \<Rightarrow> None
         | Some ((m, k), rest) \<Rightarrow> emit (TNumber m k) (tokenize rest))
      else if take 4 (c # cs) = str ''true'' then emit TTrue (tokenize (drop 3 cs))
      else if take 5 (c # cs) = str ''false'' then emit TFalse (tokenize (drop 4 cs))
      else if take 4 (c # cs) = str ''null'' then emit TNull (tokenize (drop 3 cs))
      else None)"
  by pat_completeness auto
termination
proof (relation "measure length", goal_cases)
  case 1
  show ?case by simp
next
  case (9 c cs x2 x y)
  then show ?case using lex_string_shorter [of cs x y] by simp
next
  case (10 c cs x2 x y xa ya)
  then show ?case using lex_number_shorter [of "c # cs" "(xa, ya)" y] by simp
qed simp_all

subsection \<open>Grammar\<close>

text \<open>
  The tokens are read by a pushdown automaton. A frame of the stack is an open
  array with its elements so far (latest first), or an open object with its
  properties so far and the key that awaits its value.
\<close>

datatype frame =
    FArr "json list"
  | FObj "(jsstring \<times> json) list" "jsstring option"

datatype expect =
    Value          \<comment> \<open>a value must follow\<close>
  | ValueOrEnd     \<comment> \<open>just after an opening bracket\<close>
  | KeyOrEnd       \<comment> \<open>just after an opening brace\<close>
  | Key            \<comment> \<open>after a comma inside an object\<close>
  | Colon          \<comment> \<open>after a key\<close>
  | CommaOrEnd     \<comment> \<open>after a value inside an array or an object\<close>
  | Done json      \<comment> \<open>the whole value has been read\<close>

text \<open>A finished value goes to the innermost open container, or is the result.\<close>

fun deliver :: "json \<Rightarrow> frame list \<Rightarrow> (expect \<times> frame list) option" where
  "deliver v [] = Some (Done v, [])"
| "deliver v (FArr es # st) = Some (CommaOrEnd, FArr (v # es) # st)"
| "deliver v (FObj ps (Some k) # st) = Some (CommaOrEnd, FObj (define_property ps k v) None # st)"
| "deliver v (FObj ps None # st) = None"

fun scalar :: "token \<Rightarrow> json option" where
  "scalar (TString s) = Some (JStr s)"
| "scalar (TNumber m k) = Some (JNum m k)"
| "scalar TTrue = Some (JBool True)"
| "scalar TFalse = Some (JBool False)"
| "scalar TNull = Some JNull"
| "scalar t = None"

definition start_value :: "token \<Rightarrow> frame list \<Rightarrow> (expect \<times> frame list) option" where
  "start_value t st =
     (if t = TLBracket then Some (ValueOrEnd, FArr [] # st)
      else if t = TLBrace then Some (KeyOrEnd, FObj [] None # st)
      else (case scalar t of None \<Rightarrow> None | Some v \<Rightarrow> deliver v st))"

fun close_array :: "frame list \<Rightarrow> (expect \<times> frame list) option" where
  "close_array (FArr es # st) = deliver (JArr (rev es)) st"
| "close_array st = None"

fun close_object :: "frame list \<Rightarrow> (expect \<times> frame list) option" where
  "close_object (FObj ps None # st) = deliver (JObj ps) st"
| "close_object st = None"

fun take_key :: "token \<Rightarrow> frame list \<Rightarrow> (expect \<times> frame list) option" where
  "take_key (TString k) (FObj ps None # st) = Some (Colon, FObj ps (Some k) # st)"
| "take_key t st = None"

fun after_comma :: "frame list \<Rightarrow> (expect \<times> frame list) option" where
  "after_comma (FArr es # st) = Some (Value, FArr es # st)"
| "after_comma (FObj ps None # st) = Some (Key, FObj ps None # st)"
| "after_comma st = None"

fun step :: "expect \<times> frame list \<Rightarrow> token \<Rightarrow> (expect \<times> frame list) option" where
  "step (Value, st) t = start_value t st"
| "step (ValueOrEnd, st) t = (if t = TRBracket then close_array st else start_value t st)"
| "step (KeyOrEnd, st) t = (if t = TRBrace then close_object st else take_key t st)"
| "step (Key, st) t = take_key t st"
| "step (Colon, st) t = (if t = TColon then Some (Value, st) else None)"
| "step (CommaOrEnd, st) t =
     (if t = TComma then after_comma st
      else if t = TRBracket then close_array st
      else if t = TRBrace then close_object st
      else None)"
| "step (Done v, st) t = None"

fun run :: "expect \<times> frame list \<Rightarrow> token list \<Rightarrow> (expect \<times> frame list) option" where
  "run c [] = Some c"
| "run c (t # ts) = (case step c t of None \<Rightarrow> None | Some c' \<Rightarrow> run c' ts)"

text \<open>\<open>JSON.parse\<close>: the value, or \<open>None\<close> where JavaScript throws a SyntaxError.\<close>

definition JSON_parse :: "jsstring \<Rightarrow> json option" where
  "JSON_parse s =
     (case tokenize s of
        None \<Rightarrow> None
      | Some ts \<Rightarrow>
          (case run (Value, []) ts of
             Some (Done v, []) \<Rightarrow> Some v
           | _ \<Rightarrow> None))"

section \<open>URLSearchParams\<close>

text \<open>
  The serializer of \<open>application/x-www-form-urlencoded\<close>: a string is read as
  Unicode scalar values (half a surrogate pair alone becomes U+FFFD), encoded in
  UTF-8, and every byte other than an ASCII letter, a digit and \<open>* - . _\<close> is
  written as a percent sign and two upper-case hexadecimal digits; a space is
  written as a plus sign.
\<close>

definition scalar_value :: "jschar \<Rightarrow> nat" where
  "scalar_value c = (if is_high_surrogate c \<or> is_low_surrogate c then 0xFFFD else unat c)"

fun code_points :: "jsstring \<Rightarrow> nat list" where
  "code_points [] = []"
| "code_points [c] = [scalar_value c]"
| "code_points (c # d # cs) =
     (if is_high_surrogate c \<and> is_low_surrogate d
      then (0x10000 + (unat c - 0xD800) * 0x400 + (unat d - 0xDC00)) # code_points cs
      else scalar_value c # code_points (d # cs))"

definition utf8 :: "nat \<Rightarrow> nat list" where
  "utf8 cp =
     (if cp < 0x80 then [cp]
      else if cp < 0x800 then [0xC0 + cp div 64, 0x80 + cp mod 64]
      else if cp < 0x10000 then [0xE0 + cp div 4096, 0x80 + cp div 64 mod 64, 0x80 + cp mod 64]
      else [0xF0 + cp div 262144, 0x80 + cp div 4096 mod 64, 0x80 + cp div 64 mod 64,
            0x80 + cp mod 64])"

definition utf8_encode :: "jsstring \<Rightarrow> nat list" where
  "utf8_encode s = concat (map utf8 (code_points s))"

definition upper_hex :: "nat \<Rightarrow> jschar" where
  "upper_hex n = (if n < 10 then of_nat (48 + n) else of_nat (55 + n))"

definition unreserved :: "nat \<Rightarrow> bool" where
  "unreserved b \<longleftrightarrow>
     (48 \<le> b \<and> b \<le> 57) \<or> (65 \<le> b \<and> b \<le> 90) \<or> (97 \<le> b \<and> b \<le> 122)
     \<or> b = 0x2A \<or> b = 0x2D \<or> b = 0x2E \<or> b = 0x5F"

definition form_byte :: "nat \<Rightarrow> jsstring" where
  "form_byte b =
     (if b = 0x20 then [ch CHR ''+'']
      else if unreserved b then [of_nat b]
      else [ch CHR ''%'', upper_hex (b div 16), upper_hex (b mod 16)])"

definition form_encode :: "jsstring \<Rightarrow> jsstring" where
  "form_encode s = concat (map form_byte (utf8_encode s))"

definition form_serialize :: "(jsstring \<times> jsstring) list \<Rightarrow> jsstring" where
  "form_serialize ps =
     join [ch CHR ''&''] (map (\<lambda>p. form_encode (fst p) @ ch CHR ''='' # form_encode (snd p)) ps)"

text \<open>
  The parser of \<open>application/x-www-form-urlencoded\<close>, down to the bytes of each
  name and value (the receiver decodes them as UTF-8): the text is cut at every
  \<open>&\<close>, each part that is not empty at its first \<open>=\<close>; a plus sign is a space, a
  percent sign with two hexadecimal digits is the byte they write.
\<close>

fun split_on :: "jschar \<Rightarrow> jsstring \<Rightarrow> jsstring list" where
  "split_on c [] = [[]]"
| "split_on c (x # xs) =
     (if x = c then [] # split_on c xs
      else (case split_on c xs of [] \<Rightarrow> [[x]] | y # ys \<Rightarrow> (x # y) # ys))"

fun percent_decode :: "jsstring \<Rightarrow> nat list" where
  "percent_decode [] = []"
| "percent_decode (c # cs) =
     (if c = ch CHR ''%'' then
        (case cs of
           h1 # h2 # rest \<Rightarrow>
             (case (hex_val h1, hex_val h2) of
                (Some a, Some b) \<Rightarrow> (a * 16 + b) # percent_decode rest
              | _ \<Rightarrow> unat c # percent_decode cs)
         | _ \<Rightarrow> unat c # percent_decode cs)
      else unat c # percent_decode cs)"

definition form_decode :: "jsstring \<Rightarrow> nat list" where
  "form_decode s = percent_decode (map (\<lambda>c. if c = ch CHR ''+'' then 0x20 else c) s)"

definition form_parse :: "jsstring \<Rightarrow> (nat list \<times> nat list) list" where
  "form_parse q =
     map (\<lambda>p. (form_decode (takeWhile (\<lambda>c. c \<noteq> ch CHR ''='') p),
               form_decode (drop 1 (dropWhile (\<lambda>c. c \<noteq> ch CHR ''='') p))))
       (filter (\<lambda>p. p \<noteq> []) (split_on (ch CHR ''&'') q))"

section \<open>The environment\<close>

text \<open>
  \<open>interface TokenResponse\<close>: what \<open>response.json()\<close> is cast to. The fields
  have the declared types; the refresh token may be missing, which the source
  provides for with \<open>data.refresh_token || this.tokens.refresh_token\<close>.
\<close>

record token_response =
  access_token :: jsstring
  refresh_token :: "jsstring option"
  expires_in :: int
  token_type :: jsstring

text \<open>
  A response of the token endpoint: its status, its body as \<open>response.text()\<close>
  gives it, and its body as \<open>response.json()\<close> gives it, read at the type
  \<open>TokenResponse\<close> (\<open>None\<close> when the body is not JSON and \<open>json()\<close> rejects with
  a SyntaxError). \<open>response.ok\<close> is true for the statuses 200 to 299.
\<close>

record http_response =
  status :: nat
  body_text :: jsstring
  body_json :: "token_response option"

definition ok :: "http_response \<Rightarrow> bool" where
  "ok r \<longleftrightarrow> 200 \<le> status r \<and> status r \<le> 299"

text \<open>\<open>fetch\<close> resolves with a response, or rejects when no response arrives.\<close>

datatype fetch_result = Rejected jsstring | Resolved http_response

text \<open>
  A request as the program hands it to \<open>fetch\<close>; the body is the text that
  \<open>URLSearchParams.toString()\<close> gave.
\<close>

record request =
  req_url :: jsstring
  req_method :: jsstring
  req_content_type :: jsstring
  req_body :: jsstring

text \<open>
  The world outside the manager: the content of \<open>~/.sharesight-mcp/tokens.json\<close>
  as a UTF-8 text (\<open>None\<close> when the file does not exist), the clock read by
  \<open>Date.now()\<close> in milliseconds, the network, which answers the \<open>n\<close>-th request
  after some milliseconds, and the requests sent so far. Reading, writing and
  removing the file succeed; what is printed to the console is left out.
\<close>

record world =
  tokens_file :: "jsstring option"
  clock :: int
  network :: "nat \<Rightarrow> nat \<times> fetch_result"
  sent :: "request list"

definition fetch :: "request \<Rightarrow> world \<Rightarrow> fetch_result \<times> world" where
  "fetch rq w =
     (let (d, r) = network w (length (sent w))
      in (r, w\<lparr>clock := clock w + int d, sent := sent w @ [rq]\<rparr>))"

text \<open>What the program throws.\<close>

datatype exn =
    Error jsstring      \<comment> \<open>\<open>throw new Error(message)\<close>\<close>
  | FetchError jsstring \<comment> \<open>the rejection of \<open>fetch\<close>, passed on\<close>
  | SyntaxError         \<comment> \<open>the rejection of \<open>response.json()\<close>, passed on\<close>
  | TypeError           \<comment> \<open>an object that cannot be converted to a primitive value\<close>

section \<open>Conversion to a string and to a number\<close>

text \<open>
  A number as a comparison sees it: not a number, an infinity (\<open>True\<close> for the
  negative one), or an exact decimal \<open>m / 10 ^ k\<close>.
\<close>

datatype jsnumber = NaN | Infinity bool | Finite int nat

text \<open>
  ToString of a value of a record, as \<open>new URLSearchParams({...})\<close> applies it to
  every value it is given and as \<open>Array.prototype.join\<close> applies it to the
  elements of an array. A parsed object has the methods of \<open>Object.prototype\<close>
  unless a property of its own hides them; with a property \<open>toString\<close> of its own,
  which is no function, the conversion throws a TypeError. In a joined array
  \<open>null\<close> is the empty string.
\<close>

fun collect :: "(exn + jsstring) list \<Rightarrow> exn + jsstring list" where
  "collect [] = Inr []"
| "collect (Inl e # rs) = Inl e"
| "collect (Inr x # rs) = (case collect rs of Inl e \<Rightarrow> Inl e | Inr xs \<Rightarrow> Inr (x # xs))"

fun to_string :: "json \<Rightarrow> exn + jsstring" where
  "to_string JNull = Inr (str ''null'')"
| "to_string (JBool b) = Inr (if b then str ''true'' else str ''false'')"
| "to_string (JNum m k) = Inr (number_to_string m k)"
| "to_string (JInfinity neg) = Inr (if neg then str ''-Infinity'' else str ''Infinity'')"
| "to_string (JStr s) = Inr s"
| "to_string (JArr xs) =
     (case collect (map (\<lambda>x. if x = JNull then Inr [] else to_string x) xs) of
        Inl e \<Rightarrow> Inl e
      | Inr ss \<Rightarrow> Inr (join [ch CHR '',''] ss))"
| "to_string (JObj ps) =
     (if map_of ps (str ''toString'') \<noteq> None then Inl TypeError
      else Inr (str ''[object Object]''))"

text \<open>
  StringToNumber: white space around the literal is dropped; the empty string is
  0; a literal is \<open>0x\<close>, \<open>0o\<close> or \<open>0b\<close> with digits of that base, or a decimal
  literal with an optional sign, of which \<open>Infinity\<close> is one; anything else is NaN.
\<close>

definition js_space :: "jschar \<Rightarrow> bool" where
  "js_space c \<longleftrightarrow>
     (let n = unat c in
      (0x09 \<le> n \<and> n \<le> 0x0D) \<or> n = 0x20 \<or> n = 0xA0 \<or> n = 0x1680
      \<or> (0x2000 \<le> n \<and> n \<le> 0x200A) \<or> n = 0x2028 \<or> n = 0x2029 \<or> n = 0x202F
      \<or> n = 0x205F \<or> n = 0x3000 \<or> n = 0xFEFF)"

definition trim :: "jsstring \<Rightarrow> jsstring" where
  "trim s = rev (dropWhile js_space (rev (dropWhile js_space s)))"

definition digits_in_base :: "nat \<Rightarrow> jsstring \<Rightarrow> jsnumber" where
  "digits_in_base b ds =
     (if ds \<noteq> [] \<and> list_all (\<lambda>c. case hex_val c of None \<Rightarrow> False | Some d \<Rightarrow> d < b) ds
      then Finite (int (foldl (\<lambda>a c. b * a + (case hex_val c of None \<Rightarrow> 0 | Some d \<Rightarrow> d)) 0 ds)) 0
      else NaN)"

definition decimal_literal :: "jsstring \<Rightarrow> jsnumber" where
  "decimal_literal s =
     (let (neg, s1) =
        (case s of
           [] \<Rightarrow> (False, s)
         | c # cs \<Rightarrow>
             if c = ch CHR ''-'' then (True, cs)
             else if c = ch CHR ''+'' then (False, cs)
             else (False, s));
          ip = takeWhile is_digit s1;
          s2 = dropWhile is_digit s1;
          (fp, s3) =
            (case s2 of
               [] \<Rightarrow> ([], s2)
             | c # cs \<Rightarrow>
                 if c = ch CHR ''.'' then (takeWhile is_digit cs, dropWhile is_digit cs)
                 else ([], s2))
      in if s1 = str ''Infinity'' then Infinity neg
         else if ip = [] \<and> fp = [] then NaN
         else
           (case lex_exponent s3 of
              Some (e, []) \<Rightarrow> (case decimal neg ip fp e of (m, k) \<Rightarrow> Finite m k)
            | _ \<Rightarrow> NaN))"

definition string_to_number :: "jsstring \<Rightarrow> jsnumber" where
  "string_to_number s =
     (let t = trim s in
      if t = [] then Finite 0 0
      else if take 2 t = str ''0x'' \<or> take 2 t = str ''0X'' then digits_in_base 16 (drop 2 t)
      else if take 2 t = str ''0o'' \<or> take 2 t = str ''0O'' then digits_in_base 8 (drop 2 t)
      else if take 2 t = str ''0b'' \<or> take 2 t = str ''0B'' then digits_in_base 2 (drop 2 t)
      else decimal_literal t)"

text \<open>
  ToNumber of a value read from a record, \<open>None\<close> being \<open>undefined\<close>. An array
  is converted through its joined elements. An object is converted through
  \<open>[object Object]\<close>, which is no number, unless a property \<open>toString\<close> of its own
  hides the method.
\<close>

fun to_number :: "json option \<Rightarrow> exn + jsnumber" where
  "to_number None = Inr NaN"
| "to_number (Some JNull) = Inr (Finite 0 0)"
| "to_number (Some (JBool b)) = Inr (Finite (if b then 1 else 0) 0)"
| "to_number (Some (JNum m k)) = Inr (Finite m k)"
| "to_number (Some (JInfinity neg)) = Inr (Infinity neg)"
| "to_number (Some (JStr s)) = Inr (string_to_number s)"
| "to_number (Some (JArr xs)) =
     (case to_string (JArr xs) of Inl e \<Rightarrow> Inl e | Inr s \<Rightarrow> Inr (string_to_number s))"
| "to_number (Some (JObj ps)) =
     (if map_of ps (str ''toString'') \<noteq> None then Inl TypeError else Inr NaN)"

section \<open>Arithmetic\<close>

text \<open>
  The numbers of the program are binary64. Its one computation,
  \<open>Date.now() + data.expires_in * 1000 - 60000\<close>, starts from integers, and each of
  its operations gives the binary64 number nearest to the exact result, the one
  with the even significand when two are equally near, or an infinity when the
  exact result lies beyond all of them.

  \<open>quantum a\<close> is the distance between neighbouring binary64 numbers at the
  magnitude \<open>a\<close>: it is 1 below \<open>2 ^ 53\<close> and doubles with every further power of
  two. \<open>nearest_even q a\<close> is the multiple of \<open>q\<close> nearest to \<open>a\<close>.
\<close>

fun quantum :: "nat \<Rightarrow> nat" where
  "quantum a = (if a < 2 ^ 53 then 1 else 2 * quantum (a div 2))"

declare quantum.simps [simp del]

definition nearest_even :: "nat \<Rightarrow> nat \<Rightarrow> nat" where
  "nearest_even q a =
     (let d = a div q; r = a mod q
      in if 2 * r < q \<or> (2 * r = q \<and> even d) then d * q else (d + 1) * q)"

text \<open>
  A binary64 number that is an integer, or an infinity (\<open>True\<close> for the negative
  one). \<open>round64 n\<close> is the binary64 number for the exact integer \<open>n\<close>; the largest
  finite one is \<open>2 ^ 1024 - 2 ^ 971\<close>.
\<close>

datatype number = Whole int | Infinite bool

definition round64 :: "int \<Rightarrow> number" where
  "round64 n =
     (let a = nat \<bar>n\<bar>; r = nearest_even (quantum a) a
      in if 2 ^ 1024 \<le> r then Infinite (n < 0)
         else Whole (if n < 0 then - int r else int r))"

text \<open>
  One operation on a number, \<open>f\<close> being its exact result on an integer: to add a
  finite number, or to multiply by a positive one, leaves an infinity as it is.
\<close>

fun apply64 :: "(int \<Rightarrow> int) \<Rightarrow> number \<Rightarrow> number" where
  "apply64 f (Whole a) = round64 (f a)"
| "apply64 f (Infinite neg) = Infinite neg"

text \<open>
  \<open>Date.now() + data.expires_in * 1000 - 60000\<close>. \<open>Date.now()\<close> is a whole number of
  milliseconds that binary64 holds exactly; \<open>expires_in\<close> is the integer written in
  the answer, which \<open>response.json()\<close> reads as the nearest binary64 number.
\<close>

definition expiry :: "int \<Rightarrow> int \<Rightarrow> number" where
  "expiry now seconds =
     apply64 (\<lambda>s. s - 60000)
       (apply64 (\<lambda>p. now + p)
          (apply64 (\<lambda>x. x * 1000) (round64 seconds)))"

fun number_json :: "number \<Rightarrow> json" where
  "number_json (Whole a) = JInt a"
| "number_json (Infinite neg) = JInfinity neg"

section \<open>OAuthManager\<close>

definition AUTH_URL :: jsstring where
  "AUTH_URL = str ''https://api.sharesight.com/oauth2/authorize''"

definition TOKEN_URL :: jsstring where
  "TOKEN_URL = str ''https://api.sharesight.com/oauth2/token''"

definition REDIRECT_URI :: jsstring where
  "REDIRECT_URI = str ''urn:ietf:wg:oauth:2.0:oob''"

text \<open>
  The fields of the class (\<open>tokensPath\<close> is the one file of the world). \<open>tokens\<close>
  is declared \<open>StoredTokens | null\<close>, and holds whatever \<open>JSON.parse\<close> returned
  or the object literal built from a response. A method takes the manager and the
  world and returns them as it leaves them, with \<open>Inl\<close> of what it throws or
  \<open>Inr\<close> of what it returns.
\<close>

record manager =
  clientId :: jsstring
  clientSecret :: jsstring
  tokens :: json

text \<open>\<open>interface StoredTokens\<close>: a record with its four fields at their declared types.\<close>

definition StoredTokens :: "jsstring \<Rightarrow> jsstring \<Rightarrow> int \<Rightarrow> jsstring \<Rightarrow> json" where
  "StoredTokens a r e t =
     JObj [(str ''access_token'', JStr a), (str ''refresh_token'', JStr r),
           (str ''expires_at'', JInt e), (str ''token_type'', JStr t)]"

text \<open>
  \<open>loadTokens\<close>: an absent file leaves \<open>tokens\<close> as it is; the \<open>catch\<close> turns a
  text that does not parse into \<open>null\<close>; any parsed value is assigned unchecked.
\<close>

definition loadTokens :: "manager \<Rightarrow> world \<Rightarrow> manager" where
  "loadTokens m w =
     (case tokens_file w of
        None \<Rightarrow> m
      | Some data \<Rightarrow>
          (case JSON_parse data of
             None \<Rightarrow> m\<lparr>tokens := JNull\<rparr>
           | Some v \<Rightarrow> m\<lparr>tokens := v\<rparr>))"

text \<open>The constructor (creating the directory is left out).\<close>

definition new_OAuthManager :: "jsstring \<Rightarrow> jsstring \<Rightarrow> world \<Rightarrow> manager" where
  "new_OAuthManager cid secret w =
     loadTokens \<lparr>clientId = cid, clientSecret = secret, tokens = JNull\<rparr> w"

text \<open>
  \<open>writeFileSync\<close> encodes the text in UTF-8, where half a surrogate pair alone
  is written as U+FFFD; this is the text that \<open>readFileSync\<close> returns.
\<close>

definition replace_surrogate :: "jschar \<Rightarrow> jschar" where
  "replace_surrogate c = (if is_high_surrogate c \<or> is_low_surrogate c then 0xFFFD else c)"

fun to_well_formed :: "jsstring \<Rightarrow> jsstring" where
  "to_well_formed [] = []"
| "to_well_formed [c] = [replace_surrogate c]"
| "to_well_formed (c # d # cs) =
     (if is_high_surrogate c \<and> is_low_surrogate d then c # d # to_well_formed cs
      else replace_surrogate c # to_well_formed (d # cs))"

definition saveTokens :: "manager \<Rightarrow> world \<Rightarrow> world" where
  "saveTokens m w =
     (if truthy (tokens m)
      then w\<lparr>tokens_file := Some (to_well_formed (JSON_stringify (tokens m)))\<rparr>
      else w)"

definition getAuthorizationUrl :: "manager \<Rightarrow> jsstring" where
  "getAuthorizationUrl m =
     AUTH_URL @ ch CHR ''?'' #
     form_serialize
       [(str ''response_type'', str ''code''),
        (str ''client_id'', clientId m),
        (str ''redirect_uri'', REDIRECT_URI)]"

text \<open>
  The request that both calls of \<open>fetch\<close> make, for the parameters given to
  \<open>URLSearchParams\<close> as strings. (\<open>URLSearchParams\<close> reads a string as Unicode scalar
  values when it is built, \<open>form_encode\<close> when it is written: the text is the
  same.)
\<close>

definition token_request :: "(jsstring \<times> jsstring) list \<Rightarrow> request" where
  "token_request params =
     \<lparr>req_url = TOKEN_URL, req_method = str ''POST'',
      req_content_type = str ''application/x-www-form-urlencoded'',
      req_body = form_serialize params\<rparr>"

text \<open>The request of \<open>exchangeCodeForTokens\<close>; all its parameters are strings.\<close>

definition exchange_request :: "manager \<Rightarrow> jsstring \<Rightarrow> request" where
  "exchange_request m code =
     token_request
       [(str ''grant_type'', str ''authorization_code''),
        (str ''code'', code),
        (str ''redirect_uri'', REDIRECT_URI),
        (str ''client_id'', clientId m),
        (str ''client_secret'', clientSecret m)]"

text \<open>
  \<open>exchangeCodeForTokens\<close>. \<open>Date.now()\<close> is read when the answer has arrived.
\<close>

definition exchangeCodeForTokens ::
  "jsstring \<Rightarrow> manager \<Rightarrow> world \<Rightarrow> (exn + unit) \<times> manager \<times> world" where
  "exchangeCodeForTokens code m w =
     (let (r, w1) =
        fetch (exchange_request m code) w
      in case r of
           Rejected e \<Rightarrow> (Inl (FetchError e), m, w1)
         | Resolved response \<Rightarrow>
             if \<not> ok response then
               (Inl (Error (str ''Token exchange failed ('' @ digits_of (status response)
                            @ str ''): '' @ body_text response)), m, w1)
             else
               (case body_json response of
                  None \<Rightarrow> (Inl SyntaxError, m, w1)
                | Some data \<Rightarrow>
                    let m' = m\<lparr>tokens := object_literal
                          [(str ''access_token'', Some (JStr (access_token data))),
                           (str ''refresh_token'', map_option JStr (refresh_token data)),
                           (str ''expires_at'',
                              Some (number_json (expiry (clock w1) (expires_in data)))),
                           (str ''token_type'', Some (JStr (token_type data)))]\<rparr>
                    in (Inr (), m', saveTokens m' w1)))"

text \<open>\<open>this.tokens?.refresh_token\<close>\<close>

definition stored_refresh_token :: "manager \<Rightarrow> json option" where
  "stored_refresh_token m =
     (if tokens m = JNull then None else get_prop (tokens m) (str ''refresh_token''))"

text \<open>
  The request of \<open>refreshTokens\<close>, for the stored refresh token converted to the
  string \<open>s\<close>.
\<close>

definition refresh_request :: "manager \<Rightarrow> jsstring \<Rightarrow> request" where
  "refresh_request m s =
     token_request
       [(str ''grant_type'', str ''refresh_token''),
        (str ''refresh_token'', s),
        (str ''client_id'', clientId m),
        (str ''client_secret'', clientSecret m)]"

definition no_refresh_token :: exn where
  "no_refresh_token = Error (str ''No refresh token available'')"

text \<open>
  \<open>refreshTokens\<close>. The guard \<open>!this.tokens?.refresh_token\<close> tests truthiness.
  \<open>new URLSearchParams\<close> converts the stored refresh token, whatever value it is,
  to a string, and throws when that conversion throws: then no request is made.
  On a status outside 200..299 the record is cleared and the file removed before
  the error is thrown.
\<close>

definition refreshTokens :: "manager \<Rightarrow> world \<Rightarrow> (exn + unit) \<times> manager \<times> world" where
  "refreshTokens m w =
     (case stored_refresh_token m of
        None \<Rightarrow> (Inl no_refresh_token, m, w)
      | Some old \<Rightarrow>
          if \<not> truthy old then (Inl no_refresh_token, m, w)
          else
            (case to_string old of
               Inl e \<Rightarrow> (Inl e, m, w)
             | Inr s \<Rightarrow>
                 let (r, w1) =
                   fetch (refresh_request m s) w
                 in case r of
                      Rejected e \<Rightarrow> (Inl (FetchError e), m, w1)
                    | Resolved response \<Rightarrow>
                        if \<not> ok response then
                          (Inl (Error (str ''Token refresh failed ('' @ digits_of (status response)
                                       @ str ''): '' @ body_text response
                                       @ str ''. Please re-authorize.'')),
                           m\<lparr>tokens := JNull\<rparr>, w1\<lparr>tokens_file := None\<rparr>)
                        else
                          (case body_json response of
                             None \<Rightarrow> (Inl SyntaxError, m, w1)
                           | Some data \<Rightarrow>
                               let m' = m\<lparr>tokens := object_literal
                                     [(str ''access_token'', Some (JStr (access_token data))),
                                      (str ''refresh_token'',
                                         Some (case refresh_token data of
                                                 None \<Rightarrow> old
                                               | Some t \<Rightarrow> if t \<noteq> [] then JStr t else old)),
                                      (str ''expires_at'',
                                         Some (number_json (expiry (clock w1) (expires_in data)))),
                                      (str ''token_type'', Some (JStr (token_type data)))]\<rparr>
                               in (Inr (), m', saveTokens m' w1))))"

definition hasValidTokens :: "manager \<Rightarrow> bool" where
  "hasValidTokens m \<longleftrightarrow> tokens m \<noteq> JNull"

text \<open>
  \<open>Date.now() >= x\<close> for a value \<open>x\<close> read from the record: every comparison with
  NaN is false.
\<close>

definition now_ge :: "int \<Rightarrow> json option \<Rightarrow> exn + bool" where
  "now_ge t x =
     (case to_number x of
        Inl e \<Rightarrow> Inl e
      | Inr NaN \<Rightarrow> Inr False
      | Inr (Infinity neg) \<Rightarrow> Inr neg
      | Inr (Finite m k) \<Rightarrow> Inr (m \<le> t * 10 ^ k))"

definition isTokenExpired :: "manager \<Rightarrow> world \<Rightarrow> exn + bool" where
  "isTokenExpired m w =
     (if \<not> truthy (tokens m) then Inr True
      else now_ge (clock w) (get_prop (tokens m) (str ''expires_at'')))"

text \<open>The result is \<open>this.tokens.access_token\<close>, whatever value it holds.\<close>

definition getValidAccessToken ::
  "manager \<Rightarrow> world \<Rightarrow> (exn + json option) \<times> manager \<times> world" where
  "getValidAccessToken m w =
     (if \<not> truthy (tokens m) then
        (Inl (Error (str ''Not authorized. Please run authorization flow first.'')), m, w)
      else
        (case isTokenExpired m w of
           Inl e \<Rightarrow> (Inl e, m, w)
         | Inr True \<Rightarrow>
             (case refreshTokens m w of
                (Inl e, m', w') \<Rightarrow> (Inl e, m', w')
              | (Inr u, m', w') \<Rightarrow> (Inr (get_prop (tokens m') (str ''access_token'')), m', w'))
         | Inr False \<Rightarrow> (Inr (get_prop (tokens m) (str ''access_token'')), m, w)))"

text \<open>
  \<open>runAuthorizationFlow\<close> prints the URL and the instructions, reads one line
  from the operator and exchanges it, trimmed, for tokens.
\<close>

definition runAuthorizationFlow ::
  "jsstring \<Rightarrow> manager \<Rightarrow> world \<Rightarrow> (exn + unit) \<times> manager \<times> world" where
  "runAuthorizationFlow answer m w = exchangeCodeForTokens (trim answer) m w"

section \<open>Sequences of calls\<close>

text \<open>
  The public methods, called one after the other on one manager; between two
  calls time may pass. A call runs to its end before the next one starts.
\<close>

datatype call =
    GetAuthorizationUrl
  | ExchangeCodeForTokens jsstring
  | RefreshTokens
  | HasValidTokens
  | IsTokenExpired
  | GetValidAccessToken
  | RunAuthorizationFlow jsstring
  | Wait nat

fun run_call :: "call \<Rightarrow> manager \<times> world \<Rightarrow> manager \<times> world" where
  "run_call GetAuthorizationUrl (m, w) = (m, w)"
| "run_call (ExchangeCodeForTokens code) (m, w) = snd (exchangeCodeForTokens code m w)"
| "run_call RefreshTokens (m, w) = snd (refreshTokens m w)"
| "run_call HasValidTokens (m, w) = (m, w)"
| "run_call IsTokenExpired (m, w) = (m, w)"
| "run_call GetValidAccessToken (m, w) = snd (getValidAccessToken m w)"
| "run_call (RunAuthorizationFlow answer) (m, w) = snd (runAuthorizationFlow answer m w)"
| "run_call (Wait d) (m, w) = (m, w\<lparr>clock := clock w + int d\<rparr>)"

text \<open>A call authorizes when it is an exchange that returns without throwing.\<close>

fun authorizes :: "call \<Rightarrow> manager \<times> world \<Rightarrow> bool" where
  "authorizes (ExchangeCodeForTokens code) (m, w) = (fst (exchangeCodeForTokens code m w) = Inr ())"
| "authorizes (RunAuthorizationFlow answer) (m, w) = (fst (runAuthorizationFlow answer m w) = Inr ())"
| "authorizes c s = False"

fun run_calls :: "call list \<Rightarrow> manager \<times> world \<Rightarrow> manager \<times> world" where
  "run_calls [] s = s"
| "run_calls (c # cs) s = run_calls cs (run_call c s)"

fun no_authorization :: "call list \<Rightarrow> manager \<times> world \<Rightarrow> bool" where
  "no_authorization [] s = True"
| "no_authorization (c # cs) s = (\<not> authorizes c s \<and> no_authorization cs (run_call c s))"

section \<open>An example scenario\<close>

text \<open>
  A manager that has not been authorized, a world without tokens file in which
  no request gets an answer, and four answers of the token endpoint: tokens
  \<open>A1\<close> and \<open>R1\<close> valid for an hour, a token \<open>A2\<close> without a new refresh
  token, tokens \<open>A3\<close> and \<open>R3\<close> with a lifetime of \<open>9007199254741\<close> seconds,
  and a refusal.
\<close>

definition manager0 :: manager where
  "manager0 = \<lparr>clientId = str ''id'', clientSecret = str ''secret'', tokens = JNull\<rparr>"

definition world0 :: world where
  "world0 =
     \<lparr>tokens_file = None, clock = 0,
      network = (\<lambda>n. (0, Rejected (str ''fetch failed''))), sent = []\<rparr>"

definition answers :: "fetch_result \<Rightarrow> world \<Rightarrow> world" where
  "answers r w = w\<lparr>network := (\<lambda>n. (0, r))\<rparr>"

definition response_A1 :: http_response where
  \<open>response_A1 =
     \<lparr>status = 200,
      body_text = str ''{"access_token":"A1","refresh_token":"R1","expires_in":3600,"token_type":"Bearer"}'',
      body_json = Some \<lparr>access_token = str ''A1'', refresh_token = Some (str ''R1''),
                        expires_in = 3600, token_type = str ''Bearer''\<rparr>\<rparr>\<close>

definition response_A2 :: http_response where
  \<open>response_A2 =
     \<lparr>status = 200,
      body_text = str ''{"access_token":"A2","expires_in":3600,"token_type":"Bearer"}'',
      body_json = Some \<lparr>access_token = str ''A2'', refresh_token = None,
                        expires_in = 3600, token_type = str ''Bearer''\<rparr>\<rparr>\<close>

definition response_A3 :: http_response where
  \<open>response_A3 =
     \<lparr>status = 200,
      body_text = str ''{"access_token":"A3","refresh_token":"R3","expires_in":9007199254741,"token_type":"Bearer"}'',
      body_json = Some \<lparr>access_token = str ''A3'', refresh_token = Some (str ''R3''),
                        expires_in = 9007199254741, token_type = str ''Bearer''\<rparr>\<rparr>\<close>

definition response_401 :: http_response where
  "response_401 = \<lparr>status = 401, body_text = str ''invalid_grant'', body_json = None\<rparr>"

section \<open>Decimal digits\<close>

lemma unat_digit_char: "d < 10 \<Longrightarrow> unat (digit_char d) = 48 + d"
  unfolding digit_char_def unat_of_nat by simp

lemma is_digit_digit_char: "d < 10 \<Longrightarrow> is_digit (digit_char d)"
  by (simp add: is_digit_def unat_digit_char)

lemma digit_val_digit_char: "d < 10 \<Longrightarrow> digit_val (digit_char d) = d"
  by (simp add: digit_val_def unat_digit_char)

lemma digits_of_not_Nil: "digits_of n \<noteq> []"
  by (subst digits_of.simps) simp

lemma digits_of_all_digits: "list_all is_digit (digits_of n)"
proof (induction n rule: digits_of.induct)
  case (1 n)
  show ?case
  proof (cases "n < 10")
    case True
    then show ?thesis by (subst digits_of.simps) (simp add: is_digit_digit_char)
  next
    case False
    with 1 show ?thesis by (subst digits_of.simps) (simp add: is_digit_digit_char)
  qed
qed

lemma nat_of_digits_snoc: "nat_of_digits (ds @ [c]) = 10 * nat_of_digits ds + digit_val c"
  by (simp add: nat_of_digits_def)

lemma nat_of_digits_digits_of: "nat_of_digits (digits_of n) = n"
proof (induction n rule: digits_of.induct)
  case (1 n)
  show ?case
  proof (cases "n < 10")
    case True
    then show ?thesis
      by (subst digits_of.simps) (simp add: nat_of_digits_def digit_val_digit_char)
  next
    case False
    with 1 show ?thesis
      by (subst digits_of.simps) (simp add: nat_of_digits_snoc digit_val_digit_char)
  qed
qed

lemma hd_digits_of: "hd (digits_of n) = digit_char 0 \<Longrightarrow> n = 0"
proof (induction n rule: digits_of.induct)
  case (1 n)
  show ?case
  proof (cases "n < 10")
    case True
    with "1.prems" have "unat (digit_char n) = unat (digit_char 0)"
      by (subst (asm) digits_of.simps) simp
    with True show ?thesis by (simp add: unat_digit_char)
  next
    case False
    with "1.prems" have "hd (digits_of (n div 10)) = digit_char 0"
      by (subst (asm) digits_of.simps) (simp add: digits_of_not_Nil)
    with 1 False have "n div 10 = 0" by simp
    with False show ?thesis by simp
  qed
qed

lemma length_digits_of: "n < 10 ^ k \<Longrightarrow> 0 < k \<Longrightarrow> length (digits_of n) \<le> k"
proof (induction n arbitrary: k rule: digits_of.induct)
  case (1 n)
  show ?case
  proof (cases "n < 10")
    case True
    with "1.prems" show ?thesis by (subst digits_of.simps) simp
  next
    case False
    then obtain j where k: "k = Suc j" using "1.prems" by (cases k) auto
    with False "1.prems" have "0 < j" by (cases j) auto
    moreover from k "1.prems" have "n div 10 < 10 ^ j" by (simp add: less_mult_imp_div_less mult.commute)
    ultimately have "length (digits_of (n div 10)) \<le> j" using 1 False by simp
    with False k show ?thesis by (subst digits_of.simps) simp
  qed
qed

lemma takeWhile_digits:
  "rest = [] \<or> \<not> is_digit (hd rest) \<Longrightarrow> takeWhile is_digit (digits_of n @ rest) = digits_of n"
  using digits_of_all_digits [of n]
  by (cases rest) (auto simp: takeWhile_append list_all_iff)

lemma dropWhile_digits:
  "rest = [] \<or> \<not> is_digit (hd rest) \<Longrightarrow> dropWhile is_digit (digits_of n @ rest) = rest"
  using digits_of_all_digits [of n]
  by (cases rest) (auto simp: dropWhile_append list_all_iff)

lemma strip_zeros_digits:
  "0 < a \<Longrightarrow>
   digits_of (strip_zeros a)
     @ replicate (length (digits_of a) - length (digits_of (strip_zeros a))) (digit_char 0)
   = digits_of a"
proof (induction a rule: strip_zeros.induct)
  case (1 m)
  show ?case
  proof (cases "m mod 10 \<noteq> 0")
    case True
    then show ?thesis by (subst (1 2) strip_zeros.simps) simp
  next
    case False
    with "1.prems" have m10: "\<not> m < 10" "0 < m div 10" by auto
    have sz: "strip_zeros m = strip_zeros (m div 10)"
      using False "1.prems" by (subst strip_zeros.simps) simp
    have dm: "digits_of m = digits_of (m div 10) @ [digit_char 0]"
      using False m10 by (subst digits_of.simps) simp
    from 1 False m10 have IH: "digits_of (strip_zeros (m div 10))
     @ replicate (length (digits_of (m div 10)) - length (digits_of (strip_zeros (m div 10)))) (digit_char 0)
      = digits_of (m div 10)" by simp
    then have "length (digits_of (strip_zeros (m div 10))) \<le> length (digits_of (m div 10))"
      by (metis le_add1 length_append)
    then have "Suc (length (digits_of (m div 10))) - length (digits_of (strip_zeros (m div 10)))
      = Suc (length (digits_of (m div 10)) - length (digits_of (strip_zeros (m div 10))))"
      by simp
    moreover have "length (digits_of m) = Suc (length (digits_of (m div 10)))"
      by (simp add: dm)
    moreover have "replicate (Suc j) z = replicate j z @ [z]" for j and z :: jschar
      by (induction j) simp_all
    ultimately show ?thesis
      using IH by (simp only: sz dm) (metis append.assoc)
  qed
qed

lemma number_to_string_int:
  assumes "\<bar>n\<bar> < 10 ^ 21"
  shows "number_to_string n 0 = show_int n"
proof (cases "n = 0")
  case True
  then show ?thesis
    by (simp add: number_to_string_def show_int_def) (subst digits_of.simps, simp)
next
  case False
  define a where "a = nat \<bar>n\<bar>"
  have a: "0 < a" "a < 10 ^ 21" using False assms by (simp_all add: a_def)
  have len: "length (digits_of a) \<le> 21" using a by (intro length_digits_of) simp_all
  have body: "digits_of (strip_zeros a)
      @ replicate (length (digits_of a) - length (digits_of (strip_zeros a))) (digit_char 0)
      = digits_of a" by (rule strip_zeros_digits [OF a(1)])
  then have le: "length (digits_of (strip_zeros a)) \<le> length (digits_of a)"
    by (metis le_add1 length_append)
  have nts: "number_to_string n 0 = (if n < 0 then ch CHR ''-'' # digits_of a else digits_of a)"
    using False len le body
    by (simp add: number_to_string_def Let_def a_def [symmetric])
  show ?thesis
  proof (cases "n < 0")
    case True
    then have "a = nat (- n)" by (simp add: a_def)
    with True nts show ?thesis by (simp add: show_int_def)
  next
    case nonneg: False
    then have "a = nat n" by (simp add: a_def)
    with nonneg nts show ?thesis by (simp add: show_int_def)
  qed
qed

section \<open>String literals\<close>

lemma unat_hex_digit: "d < 16 \<Longrightarrow> unat (hex_digit d) = (if d < 10 then 48 + d else 87 + d)"
  unfolding hex_digit_def by (simp add: unat_of_nat del: of_nat_add)

lemma hex_val_hex_digit: "d < 16 \<Longrightarrow> hex_val (hex_digit d) = Some d"
  by (simp add: hex_val_def unat_hex_digit Let_def)

lemma hex_recombine:
  "((n div 4096 * 16 + n div 256 mod 16) * 16 + n div 16 mod 16) * 16 + n mod 16 = (n :: nat)"
proof -
  have a: "n div 256 = (n div 16) div 16" "n div 4096 = (n div 256) div 16"
    by (simp_all add: div_mult2_eq [symmetric])
  have "n div 4096 * 16 + n div 256 mod 16 = n div 256"
    unfolding a(2) by (simp add: div_mult_mod_eq)
  moreover have "n div 256 * 16 + n div 16 mod 16 = n div 16"
    unfolding a(1) by (simp add: div_mult_mod_eq)
  ultimately show ?thesis by (simp add: div_mult_mod_eq)
qed

lemma hex4_unicode_escape:
  "hex4 (hex_digit (unat c div 4096)) (hex_digit (unat c div 256 mod 16))
        (hex_digit (unat c div 16 mod 16)) (hex_digit (unat c mod 16)) = Some (c :: jschar)"
proof -
  define n where "n = unat c"
  have n: "n < 65536" using unsigned_less [of c, where ?'a = nat] by (simp add: n_def)
  then have d: "n div 4096 < 16" by simp
  have "((n div 4096 * 16 + n div 256 mod 16) * 16 + n div 16 mod 16) * 16 + n mod 16 = n"
    by (rule hex_recombine)
  moreover have "word_of_nat n = c" by (simp add: n_def)
  ultimately show ?thesis
    using d by (simp add: hex4_def hex_val_hex_digit n_def [symmetric])
qed

lemma lex_string_unicode_escape:
  "lex_string (unicode_escape c @ rest) = push_unit c (lex_string rest)"
  by (simp add: unicode_escape_def Let_def hex4_unicode_escape)

lemma lex_string_quote_unit:
  "lex_string (quote_unit c @ rest) = push_unit c (lex_string rest)"
proof -
  consider "c = 0x08" | "c = 0x09" | "c = 0x0A" | "c = 0x0C" | "c = 0x0D" | "c = 0x22" | "c = 0x5C"
    | "c \<noteq> 0x08" "c \<noteq> 0x09" "c \<noteq> 0x0A" "c \<noteq> 0x0C" "c \<noteq> 0x0D" "c \<noteq> 0x22" "c \<noteq> 0x5C"
      "unat c < 0x20 \<or> is_high_surrogate c \<or> is_low_surrogate c"
    | "c \<noteq> 0x08" "c \<noteq> 0x09" "c \<noteq> 0x0A" "c \<noteq> 0x0C" "c \<noteq> 0x0D" "c \<noteq> 0x22" "c \<noteq> 0x5C"
      "\<not> (unat c < 0x20 \<or> is_high_surrogate c \<or> is_low_surrogate c)"
    by blast
  then show ?thesis
  proof cases
    case 8
    then show ?thesis
      by (simp add: quote_unit_def lex_string_unicode_escape)
  next
    case 9
    then show ?thesis by (simp add: quote_unit_def)
  qed (simp_all add: quote_unit_def simple_escape_def)
qed

lemma surrogate_plain:
  assumes "is_high_surrogate c \<or> is_low_surrogate c"
  shows "c \<noteq> 0x22" "c \<noteq> 0x5C" "\<not> unat c < 0x20"
  using assms by (auto simp: is_high_surrogate_def is_low_surrogate_def)

lemma lex_string_pair:
  "is_high_surrogate c \<Longrightarrow> is_low_surrogate d \<Longrightarrow>
   lex_string (c # d # rest) = push_unit c (push_unit d (lex_string rest))"
  using surrogate_plain [of c] surrogate_plain [of d] by simp

lemma lex_string_quote_units:
  "lex_string (quote_units s @ 0x22 # rest) = Some (s, rest)"
proof (induction s rule: quote_units.induct)
  case 1
  show ?case by simp
next
  case (2 c)
  show ?case by (simp add: lex_string_quote_unit push_unit_def)
next
  case (3 c d cs)
  show ?case
  proof (cases "is_high_surrogate c \<and> is_low_surrogate d")
    case True
    then have "quote_units (c # d # cs) = c # d # quote_units cs" by simp
    with 3 True show ?thesis
      by (simp add: lex_string_pair push_unit_def del: lex_string.simps quote_units.simps)
  next
    case False
    then have "quote_units (c # d # cs) = quote_unit c @ quote_units (d # cs)" by auto
    with 3 False show ?thesis
      by (simp add: lex_string_quote_unit push_unit_def del: lex_string.simps quote_units.simps)
  qed
qed

section \<open>Tokens of a serialized record\<close>

lemma lex_fraction_none: "ends_number rest \<Longrightarrow> lex_fraction rest = Some ([], rest)"
  by (cases rest) (auto simp: ends_number_def lex_fraction_def)

lemma lex_exponent_none: "ends_number rest \<Longrightarrow> lex_exponent rest = Some (0, rest)"
  by (cases rest) (auto simp: ends_number_def lex_exponent_def)

lemma digits_of_no_leading_zero:
  "\<not> (1 < length (digits_of a) \<and> hd (digits_of a) = digit_char 0)"
proof
  assume h: "1 < length (digits_of a) \<and> hd (digits_of a) = digit_char 0"
  then have "a = 0" by (simp add: hd_digits_of)
  then have "digits_of a = [digit_char 0]" by (subst digits_of.simps) simp
  with h show False by simp
qed

lemma lex_digits:
  assumes "ends_number rest"
  shows "lex_number (digits_of a @ rest) = Some ((int a, 0), rest)"
proof -
  have nd: "rest = [] \<or> \<not> is_digit (hd rest)" using assms by (auto simp: ends_number_def)
  obtain x xs where xs: "digits_of a = x # xs"
    using digits_of_not_Nil [of a] by (cases "digits_of a") auto
  have "is_digit x" using digits_of_all_digits [of a] xs by simp
  then have "x \<noteq> ch CHR ''-''" by (auto simp: is_digit_def)
  then have sign: "(case digits_of a @ rest of [] \<Rightarrow> (False, digits_of a @ rest)
      | c # cs \<Rightarrow> if c = ch CHR ''-'' then (True, cs) else (False, digits_of a @ rest))
      = (False, digits_of a @ rest)"
    by (simp add: xs)
  show ?thesis
    unfolding lex_number_def sign
    using digits_of_no_leading_zero [of a]
    by (simp add: takeWhile_digits [OF nd] dropWhile_digits [OF nd] digits_of_not_Nil
        lex_fraction_none [OF assms] lex_exponent_none [OF assms] decimal_def
        nat_of_digits_digits_of Let_def)
qed

lemma lex_minus_digits:
  assumes "ends_number rest"
  shows "lex_number (ch CHR ''-'' # digits_of a @ rest) = Some ((- int a, 0), rest)"
proof -
  have nd: "rest = [] \<or> \<not> is_digit (hd rest)" using assms by (auto simp: ends_number_def)
  show ?thesis
    unfolding lex_number_def
    using digits_of_no_leading_zero [of a]
    by (simp add: takeWhile_digits [OF nd] dropWhile_digits [OF nd] digits_of_not_Nil
        lex_fraction_none [OF assms] lex_exponent_none [OF assms] decimal_def
        nat_of_digits_digits_of Let_def)
qed

lemma lex_show_int:
  assumes "ends_number rest"
  shows "lex_number (show_int n @ rest) = Some ((n, 0), rest)"
  using lex_digits [OF assms, of "nat n"] lex_minus_digits [OF assms, of "nat (- n)"]
  by (simp add: show_int_def)

declare tokenize.simps [simp del]

lemma tokenize_space: "is_json_space c \<Longrightarrow> tokenize (c # cs) = tokenize cs"
  by (simp add: tokenize.simps)

lemma tokenize_spaces: "tokenize (replicate k 0x20 @ rest) = tokenize rest"
  by (induction k) (simp_all add: tokenize_space is_json_space_def)

lemma tokenize_newline_indent: "tokenize (newline_indent d @ rest) = tokenize rest"
  by (simp add: newline_indent_def tokenize_space is_json_space_def tokenize_spaces)

lemma tokenize_punctuation:
  "tokenize (0x7B # cs) = emit TLBrace (tokenize cs)"
  "tokenize (0x7D # cs) = emit TRBrace (tokenize cs)"
  "tokenize (0x3A # cs) = emit TColon (tokenize cs)"
  "tokenize (0x2C # cs) = emit TComma (tokenize cs)"
  "tokenize (0x20 # cs) = tokenize cs"
  by (simp_all add: tokenize.simps is_json_space_def)

lemma tokenize_string:
  "tokenize (quote_json s @ rest) = emit (TString s) (tokenize rest)"
  by (simp add: quote_json_def tokenize.simps is_json_space_def lex_string_quote_units)

lemma show_int_Cons:
  obtains c cs where "show_int n = c # cs" "c = ch CHR ''-'' \<or> is_digit c"
proof (cases "n < 0")
  case True
  then show ?thesis using that by (simp add: show_int_def)
next
  case False
  obtain x xs where xs: "digits_of (nat n) = x # xs"
    using digits_of_not_Nil [of "nat n"] by (cases "digits_of (nat n)") auto
  moreover have "is_digit x" using digits_of_all_digits [of "nat n"] xs by simp
  ultimately show ?thesis using that False by (simp add: show_int_def)
qed

lemma tokenize_number:
  assumes "ends_number rest"
  shows "tokenize (show_int n @ rest) = emit (TNumber n 0) (tokenize rest)"
proof -
  obtain c cs where c: "show_int n = c # cs" "c = ch CHR ''-'' \<or> is_digit c"
    by (rule show_int_Cons)
  from c(2) have "\<not> is_json_space c" "c \<noteq> ch CHR ''{''" "c \<noteq> ch CHR ''}''" "c \<noteq> ch CHR ''[''"
    "c \<noteq> ch CHR '']''" "c \<noteq> ch CHR '':''" "c \<noteq> ch CHR '',''" "c \<noteq> 0x22"
    by (auto simp: is_digit_def is_json_space_def)
  with c(2) have "tokenize (c # cs @ rest) =
      (case lex_number (c # cs @ rest) of None \<Rightarrow> None
       | Some ((m, k), r) \<Rightarrow> emit (TNumber m k) (tokenize r))"
    by (simp add: tokenize.simps)
  with lex_show_int [OF assms, of n] c(1) show ?thesis by simp
qed

lemma key_not_index:
  "\<not> is_array_index (str ''access_token'')" "\<not> is_array_index (str ''refresh_token'')"
  "\<not> is_array_index (str ''expires_at'')" "\<not> is_array_index (str ''token_type'')"
  by (simp_all add: is_array_index_def str_def is_digit_def)

lemma keys_distinct:
  "str ''access_token'' \<noteq> str ''refresh_token''" "str ''access_token'' \<noteq> str ''expires_at''"
  "str ''access_token'' \<noteq> str ''token_type''" "str ''refresh_token'' \<noteq> str ''access_token''"
  "str ''refresh_token'' \<noteq> str ''expires_at''" "str ''refresh_token'' \<noteq> str ''token_type''"
  "str ''expires_at'' \<noteq> str ''access_token''" "str ''expires_at'' \<noteq> str ''refresh_token''"
  "str ''expires_at'' \<noteq> str ''token_type''" "str ''token_type'' \<noteq> str ''access_token''"
  "str ''token_type'' \<noteq> str ''refresh_token''" "str ''token_type'' \<noteq> str ''expires_at''"
  by (simp_all add: str_def)

lemma tokenize_StoredTokens:
  assumes "\<bar>e\<bar> < 10 ^ 21"
  shows "tokenize (JSON_stringify (StoredTokens a r e t)) =
     Some [TLBrace, TString (str ''access_token''), TColon, TString a, TComma,
           TString (str ''refresh_token''), TColon, TString r, TComma,
           TString (str ''expires_at''), TColon, TNumber e 0, TComma,
           TString (str ''token_type''), TColon, TString t, TRBrace]"
  by (simp add: JSON_stringify_def StoredTokens_def number_to_string_int [OF assms]
      tokenize_punctuation tokenize_newline_indent tokenize_string tokenize_number
      ends_number_def is_digit_def emit_def tokenize.simps(1))

lemma parse_StoredTokens:
  assumes "\<bar>e\<bar> < 10 ^ 21"
  shows "JSON_parse (JSON_stringify (StoredTokens a r e t)) = Some (StoredTokens a r e t)"
  unfolding JSON_parse_def tokenize_StoredTokens [OF assms]
  by (simp add: start_value_def define_property_def key_not_index keys_distinct StoredTokens_def)

section \<open>The text written to the file\<close>

lemma replace_surrogate_id:
  "replace_surrogate c = c \<longleftrightarrow> \<not> (is_high_surrogate c \<or> is_low_surrogate c)"
  by (auto simp: replace_surrogate_def is_high_surrogate_def is_low_surrogate_def)

lemma to_well_formed_append:
  "to_well_formed a = a \<Longrightarrow> to_well_formed (a @ b) = a @ to_well_formed b"
proof (induction a rule: to_well_formed.induct)
  case 1
  show ?case by simp
next
  case (2 c)
  then have "\<not> is_high_surrogate c" "replace_surrogate c = c"
    by (simp_all add: replace_surrogate_id)
  then show ?case by (cases b) simp_all
next
  case (3 c d cs)
  show ?case
  proof (cases "is_high_surrogate c \<and> is_low_surrogate d")
    case True
    with 3 show ?thesis by simp
  next
    case False
    with "3.prems" have "replace_surrogate c = c" "to_well_formed (d # cs) = d # cs"
      by auto
    with "3.IH"(2) False show ?thesis by auto
  qed
qed

lemma well_formed_append:
  "to_well_formed a = a \<Longrightarrow> to_well_formed b = b \<Longrightarrow> to_well_formed (a @ b) = a @ b"
  by (simp add: to_well_formed_append)

lemma well_formed_Cons:
  "\<not> (is_high_surrogate c \<or> is_low_surrogate c) \<Longrightarrow> to_well_formed s = s \<Longrightarrow>
   to_well_formed (c # s) = c # s"
  using well_formed_append [of "[c]" s] by (simp add: replace_surrogate_id)

lemma well_formed_plain:
  "list_all (\<lambda>c. unat c < 0xD800) s \<Longrightarrow> to_well_formed s = s"
proof (induction s)
  case Nil
  show ?case by simp
next
  case (Cons c s)
  then show ?case
    by (intro well_formed_Cons) (auto simp: is_high_surrogate_def is_low_surrogate_def)
qed

lemma plain_hex_digit: "d < 16 \<Longrightarrow> unat (hex_digit d) < 0xD800"
  by (simp add: unat_hex_digit)

lemma well_formed_unicode_escape: "to_well_formed (unicode_escape c) = unicode_escape c"
proof -
  have "unat c < 65536" using unsigned_less [of c, where ?'a = nat] by simp
  then have "unat c div 4096 < 16" by simp
  then show ?thesis
    by (intro well_formed_plain) (simp add: unicode_escape_def Let_def plain_hex_digit)
qed

lemma well_formed_quote_unit: "to_well_formed (quote_unit c) = quote_unit c"
  by (auto simp: quote_unit_def well_formed_unicode_escape replace_surrogate_id
      is_high_surrogate_def is_low_surrogate_def)

lemma well_formed_quote_units: "to_well_formed (quote_units s) = quote_units s"
proof (induction s rule: quote_units.induct)
  case 1
  show ?case by simp
next
  case (2 c)
  show ?case by (simp add: well_formed_quote_unit)
next
  case (3 c d cs)
  show ?case
  proof (cases "is_high_surrogate c \<and> is_low_surrogate d")
    case True
    with 3 show ?thesis by simp
  next
    case False
    then have "quote_units (c # d # cs) = quote_unit c @ quote_units (d # cs)" by auto
    with 3 False show ?thesis
      by (simp add: well_formed_append well_formed_quote_unit del: quote_units.simps)
  qed
qed

lemma well_formed_quote_json: "to_well_formed (quote_json s) = quote_json s"
proof -
  have "to_well_formed (quote_units s @ [0x22]) = quote_units s @ [0x22]"
    by (intro well_formed_append well_formed_quote_units well_formed_plain) simp
  then show ?thesis
    unfolding quote_json_def
    by (intro well_formed_Cons) (simp_all add: is_high_surrogate_def is_low_surrogate_def)
qed

lemma well_formed_digits: "to_well_formed (digits_of n) = digits_of n"
proof (rule well_formed_plain)
  show "list_all (\<lambda>c. unat c < 0xD800) (digits_of n)"
    using digits_of_all_digits [of n] by (auto simp: list_all_iff is_digit_def)
qed

lemma well_formed_show_int: "to_well_formed (show_int n) = show_int n"
  by (auto simp: show_int_def well_formed_digits is_high_surrogate_def is_low_surrogate_def
      intro!: well_formed_Cons)

lemma well_formed_newline_indent: "to_well_formed (newline_indent d) = newline_indent d"
  by (intro well_formed_plain) (simp add: newline_indent_def list_all_iff)

lemma well_formed_StoredTokens:
  assumes "\<bar>e\<bar> < 10 ^ 21"
  shows "to_well_formed (JSON_stringify (StoredTokens a r e t)) =
         JSON_stringify (StoredTokens a r e t)"
  unfolding JSON_stringify_def StoredTokens_def
  by (simp add: number_to_string_int [OF assms])
     (intro well_formed_Cons well_formed_append well_formed_quote_json well_formed_show_int
       well_formed_newline_indent;
      simp add: is_high_surrogate_def is_low_surrogate_def)

section \<open>Records built from a response\<close>

lemma record_literal:
  "object_literal
     [(str ''access_token'', Some a), (str ''refresh_token'', Some r),
      (str ''expires_at'', Some e), (str ''token_type'', Some t)]
   = JObj [(str ''access_token'', a), (str ''refresh_token'', r),
           (str ''expires_at'', e), (str ''token_type'', t)]"
  by (simp add: define_property_def key_not_index keys_distinct)



lemma fetch_result:
  "network w (length (sent w)) = (d, r) \<Longrightarrow>
   fetch rq w = (r, w\<lparr>clock := clock w + int d, sent := sent w @ [rq]\<rparr>)"
  by (simp add: fetch_def)

lemma quantum_safe: "a < 2 ^ 53 \<Longrightarrow> quantum a = 1"
  by (simp add: quantum.simps)

lemma nearest_even_1: "nearest_even 1 a = a"
  by (simp add: nearest_even_def)

lemma round64_safe:
  assumes "\<bar>n\<bar> \<le> 2 ^ 53"
  shows "round64 n = Whole n"
proof (cases "\<bar>n\<bar> < 2 ^ 53")
  case True
  then have a: "nat \<bar>n\<bar> < 2 ^ 53" by simp
  have "(2::nat) ^ 53 \<le> 2 ^ 1024" by (rule power_increasing) simp_all
  with a have big: "\<not> 2 ^ 1024 \<le> nat \<bar>n\<bar>" by linarith
  have q: "quantum (nat \<bar>n\<bar>) = 1" by (rule quantum_safe [OF a])
  show ?thesis
    unfolding round64_def q nearest_even_1 Let_def using big by (simp del: power_numeral)
next
  case False
  with assms have n: "\<bar>n\<bar> = 2 ^ 53" by simp
  then have a: "nat \<bar>n\<bar> = 2 ^ 53" by simp
  have q: "quantum (2 ^ 53) = 2"
    by (simp add: quantum.simps)
  have r: "nearest_even 2 (2 ^ 53) = 2 ^ 53"
    by (simp add: nearest_even_def)
  have big: "\<not> (2::nat) ^ 1024 \<le> 2 ^ 53" by simp
  from n show ?thesis
    unfolding round64_def a q r Let_def using big by (auto simp del: power_numeral)
qed

lemma expiry_safe:
  assumes "\<bar>seconds * 1000\<bar> \<le> 2 ^ 53" and "\<bar>now + seconds * 1000\<bar> \<le> 2 ^ 53"
    and "\<bar>now + seconds * 1000 - 60000\<bar> \<le> 2 ^ 53"
  shows "expiry now seconds = Whole (now + seconds * 1000 - 60000)"
proof -
  from assms(1) have "\<bar>seconds\<bar> \<le> 2 ^ 53" by (simp add: abs_mult)
  with assms show ?thesis
    by (simp add: expiry_def round64_safe)
qed

lemma expiry_hour: "expiry 0 3600 = Whole 3540000" "expiry 3600000 3600 = Whole 7140000"
  by (simp_all add: expiry_safe)




lemma refresh_success:
  assumes "stored_refresh_token m = Some old" and "truthy old" and "to_string old = Inr s"
    and "network w (length (sent w)) = (d, Resolved r)" and "ok r"
    and "body_json r = Some data"
  shows "refreshTokens m w =
    (Inr (),
     m\<lparr>tokens := JObj
        [(str ''access_token'', JStr (access_token data)),
         (str ''refresh_token'',
            (case refresh_token data of None \<Rightarrow> old
             | Some t \<Rightarrow> if t \<noteq> [] then JStr t else old)),
         (str ''expires_at'', number_json (expiry (clock w + int d) (expires_in data))),
         (str ''token_type'', JStr (token_type data))]\<rparr>,
     w\<lparr>clock := clock w + int d, sent := sent w @ [refresh_request m s],
       tokens_file := Some (to_well_formed (JSON_stringify (JObj
        [(str ''access_token'', JStr (access_token data)),
         (str ''refresh_token'',
            (case refresh_token data of None \<Rightarrow> old
             | Some t \<Rightarrow> if t \<noteq> [] then JStr t else old)),
         (str ''expires_at'', number_json (expiry (clock w + int d) (expires_in data))),
         (str ''token_type'', JStr (token_type data))])))\<rparr>)"
  using assms
  by (simp add: refreshTokens_def fetch_result record_literal
      saveTokens_def Let_def del: object_literal.simps)

lemma refresh_rejected:
  assumes "stored_refresh_token m = Some old" and "truthy old" and "to_string old = Inr s"
    and "network w (length (sent w)) = (d, Resolved r)" and "\<not> ok r"
  shows "refreshTokens m w =
    (Inl (Error (str ''Token refresh failed ('' @ digits_of (status r) @ str ''): ''
                 @ body_text r @ str ''. Please re-authorize.'')),
     m\<lparr>tokens := JNull\<rparr>,
     w\<lparr>clock := clock w + int d, sent := sent w @ [refresh_request m s],
       tokens_file := None\<rparr>)"
  using assms
  by (simp add: refreshTokens_def fetch_result)

lemma refresh_network_failure:
  assumes "stored_refresh_token m = Some old" and "truthy old" and "to_string old = Inr s"
    and "network w (length (sent w)) = (d, Rejected e)"
  shows "refreshTokens m w =
    (Inl (FetchError e), m,
     w\<lparr>clock := clock w + int d, sent := sent w @ [refresh_request m s]\<rparr>)"
  using assms
  by (simp add: refreshTokens_def fetch_result)

lemma refresh_not_convertible:
  assumes "stored_refresh_token m = Some old" and "truthy old" and "to_string old = Inl x"
  shows "refreshTokens m w = (Inl x, m, w)"
  using assms by (simp add: refreshTokens_def)

lemma refresh_no_token:
  assumes "stored_refresh_token m = None \<or> (\<exists>old. stored_refresh_token m = Some old \<and> \<not> truthy old)"
  shows "refreshTokens m w = (Inl (Error (str ''No refresh token available'')), m, w)"
  using assms by (auto simp: refreshTokens_def no_refresh_token_def)


lemma exchange_rejected:
  assumes "network w (length (sent w)) = (d, Resolved r)" and "\<not> ok r"
  shows "exchangeCodeForTokens code m w =
    (Inl (Error (str ''Token exchange failed ('' @ digits_of (status r) @ str ''): ''
                 @ body_text r)),
     m, w\<lparr>clock := clock w + int d, sent := sent w @ [exchange_request m code]\<rparr>)"
  using assms
  by (simp add: exchangeCodeForTokens_def fetch_result)

lemma exchange_network_failure:
  assumes "network w (length (sent w)) = (d, Rejected e)"
  shows "exchangeCodeForTokens code m w =
    (Inl (FetchError e), m,
     w\<lparr>clock := clock w + int d, sent := sent w @ [exchange_request m code]\<rparr>)"
  using assms
  by (simp add: exchangeCodeForTokens_def fetch_result)

lemma get_prop_Some_truthy: "get_prop v k = Some x \<Longrightarrow> truthy v \<and> v \<noteq> JNull"
  by (cases v) simp_all

lemma digits_401: "digits_of 401 = str ''401''"
  by (simp add: digits_of.simps str_def digit_char_def)

lemma load_saved_StoredTokens:
  assumes "\<bar>e\<bar> < 10 ^ 21"
  shows "loadTokens m' (saveTokens (m\<lparr>tokens := StoredTokens a r e t\<rparr>) w)
         = m'\<lparr>tokens := StoredTokens a r e t\<rparr>"
proof -
  have "truthy (StoredTokens a r e t)" by (simp add: StoredTokens_def)
  then show ?thesis
    by (simp add: loadTokens_def saveTokens_def well_formed_StoredTokens [OF assms]
        parse_StoredTokens [OF assms])
qed

lemma world0_network: "network (answers r world0) n = (0, r)" "network world0 n = (0, Rejected (str ''fetch failed''))"
  by (simp_all add: answers_def world0_def)

lemma world0_fields:
  "sent world0 = []" "clock world0 = 0" "tokens_file world0 = None"
  "sent (answers r w) = sent w" "clock (answers r w) = clock w"
  "tokens_file (answers r w) = tokens_file w"
  by (simp_all add: answers_def world0_def)

lemma str_eq_Nil: "str s = [] \<longleftrightarrow> s = []"
  by (simp add: str_def)

lemma StoredTokens_props:
  "get_prop (StoredTokens a r e t) (str ''access_token'') = Some (JStr a)"
  "get_prop (StoredTokens a r e t) (str ''refresh_token'') = Some (JStr r)"
  "get_prop (StoredTokens a r e t) (str ''expires_at'') = Some (JInt e)"
  "get_prop (StoredTokens a r e t) (str ''token_type'') = Some (JStr t)"
  "StoredTokens a r e t \<noteq> JNull" "truthy (StoredTokens a r e t)"
  by (simp_all add: StoredTokens_def keys_distinct)

lemma response_fields:
  "ok response_A1" "ok response_A2" "\<not> ok response_401"
  "body_json response_A1 = Some \<lparr>access_token = str ''A1'', refresh_token = Some (str ''R1''),
                        expires_in = 3600, token_type = str ''Bearer''\<rparr>"
  "body_json response_A2 = Some \<lparr>access_token = str ''A2'', refresh_token = None,
                        expires_in = 3600, token_type = str ''Bearer''\<rparr>"
  "status response_401 = 401" "body_text response_401 = str ''invalid_grant''"
  "ok response_A3"
  "body_json response_A3 = Some \<lparr>access_token = str ''A3'', refresh_token = Some (str ''R3''),
                        expires_in = 9007199254741, token_type = str ''Bearer''\<rparr>"
  by (simp_all add: ok_def response_A1_def response_A2_def response_A3_def response_401_def)

lemma stored_refresh_token_StoredTokens:
  "stored_refresh_token (m\<lparr>tokens := StoredTokens a r e t\<rparr>) = Some (JStr r)"
  by (simp add: stored_refresh_token_def StoredTokens_props)

section \<open>Calls on a manager without record\<close>

lemma exchange_throws_unchanged:
  "fst (exchangeCodeForTokens code m w) \<noteq> Inr () \<Longrightarrow>
   fst (snd (exchangeCodeForTokens code m w)) = m"
  by (auto simp: exchangeCodeForTokens_def Let_def split: prod.splits fetch_result.splits
      option.splits if_splits)

lemma unauthorized_call:
  assumes "tokens m = JNull" and "\<not> authorizes c (m, w)"
  shows "tokens (fst (run_call c (m, w))) = JNull"
proof (cases c)
  case (ExchangeCodeForTokens code)
  with assms exchange_throws_unchanged [of code m w] show ?thesis
    by (cases "exchangeCodeForTokens code m w") auto
next
  case RefreshTokens
  with assms show ?thesis
    by (simp add: refresh_no_token stored_refresh_token_def)
next
  case GetValidAccessToken
  with assms show ?thesis by (simp add: getValidAccessToken_def)
next
  case (RunAuthorizationFlow answer)
  with assms exchange_throws_unchanged [of "trim answer" m w] show ?thesis
    by (cases "exchangeCodeForTokens (trim answer) m w") (auto simp: runAuthorizationFlow_def)
qed (use assms in simp_all)

lemma unauthorized_calls:
  "tokens m = JNull \<Longrightarrow> no_authorization cs (m, w) \<Longrightarrow>
   \<not> hasValidTokens (fst (run_calls cs (m, w)))"
proof (induction cs arbitrary: m w)
  case Nil
  then show ?case by (simp add: hasValidTokens_def)
next
  case (Cons c cs)
  from Cons.prems have na: "\<not> authorizes c (m, w)" by simp
  obtain m1 w1 where step: "run_call c (m, w) = (m1, w1)"
    by (cases "run_call c (m, w)") auto
  with unauthorized_call [OF Cons.prems(1) na] have null: "tokens m1 = JNull" by simp
  from Cons.prems step have "no_authorization cs (m1, w1)" by simp
  from Cons.IH [OF null this] step show ?case by simp
qed

lemma refresh_sends_once:
  assumes "stored_refresh_token m = Some old" and "truthy old" and "to_string old = Inr s"
  shows "sent (snd (snd (refreshTokens m w))) = sent w @ [refresh_request m s]"
proof -
  obtain d r where net: "network w (length (sent w)) = (d, r)"
    by (cases "network w (length (sent w))") auto
  show ?thesis
  proof (cases r)
    case (Rejected e)
    with net refresh_network_failure [OF assms, of w d e] show ?thesis by simp
  next
    case (Resolved response)
    show ?thesis
    proof (cases "ok response")
      case False
      with net Resolved refresh_rejected [OF assms, of w d response] show ?thesis by simp
    next
      case True
      show ?thesis
      proof (cases "body_json response")
        case None
        with net Resolved True assms show ?thesis
          by (simp add: refreshTokens_def fetch_result)
      next
        case (Some data)
        with net Resolved True refresh_success [OF assms, of w d response data]
        show ?thesis by simp
      qed
    qed
  qed
qed

lemma message_401:
  "str ''Token refresh failed ('' @ digits_of 401 @ str ''): '' @ str ''invalid_grant''
     @ str ''. Please re-authorize.''
   = str ''Token refresh failed (401): invalid_grant. Please re-authorize.''"
  by (simp add: digits_401) (simp add: str_def)

lemma parse_partial_record:
  \<open>JSON_parse (str ''{"access_token":"A"}'') = Some (JObj [(str ''access_token'', JStr (str ''A''))])\<close>
  by code_simp

lemma parse_cut_record:
  \<open>JSON_parse (str ''{"access_token": "A1", "refresh_to'') = None\<close>
  by code_simp

lemma new_OAuthManager_tokens:
  "tokens (new_OAuthManager cid secret w) =
     (case tokens_file w of None \<Rightarrow> JNull
      | Some data \<Rightarrow> (case JSON_parse data of None \<Rightarrow> JNull | Some v \<Rightarrow> v))"
  by (simp add: new_OAuthManager_def loadTokens_def split: option.splits)

section \<open>The query of the authorization URL\<close>

lemma scalar_value_bound: "scalar_value c < 0x10000"
  using unsigned_less [of c, where ?'a = nat] by (simp add: scalar_value_def)

lemma code_points_bound: "\<forall>cp \<in> set (code_points s). cp < 0x110000"
proof (induction s rule: code_points.induct)
  case 1
  show ?case by simp
next
  case (2 c)
  show ?case using scalar_value_bound [of c] by simp
next
  case (3 c d cs)
  have "unat c - 0xD800 < 0x400" if "is_high_surrogate c"
    using that unfolding is_high_surrogate_def by arith
  moreover have "unat d - 0xDC00 < 0x400" if "is_low_surrogate d"
    using that unfolding is_low_surrogate_def by arith
  ultimately show ?case
    using 3 scalar_value_bound [of c] by auto
qed

lemma utf8_bytes: "cp < 0x110000 \<Longrightarrow> \<forall>b \<in> set (utf8 cp). b < 256"
  by (auto simp: utf8_def)

lemma utf8_encode_bytes: "\<forall>b \<in> set (utf8_encode s). b < 256"
  using code_points_bound [of s] utf8_bytes by (auto simp: utf8_encode_def)

lemma unat_upper_hex: "d < 16 \<Longrightarrow> unat (upper_hex d) = (if d < 10 then 48 + d else 55 + d)"
  unfolding upper_hex_def by (simp add: unat_of_nat del: of_nat_add)

lemma hex_val_upper_hex: "d < 16 \<Longrightarrow> hex_val (upper_hex d) = Some d"
  by (simp add: hex_val_def unat_upper_hex Let_def)

lemma unat_byte: "b < 256 \<Longrightarrow> unat (of_nat b :: jschar) = b"
  by (simp add: unat_of_nat)

lemma form_byte_units:
  assumes "b < 256"
  shows "\<forall>c \<in> set (form_byte b).
           c \<noteq> ch CHR ''&'' \<and> c \<noteq> ch CHR ''='' \<and> c \<noteq> ch CHR ''?'' \<and> c \<noteq> ch CHR ''#''"
proof -
  have d: "b div 16 < 16" "b mod 16 < 16" using assms by simp_all
  have u: "unat (upper_hex d) \<noteq> 38 \<and> unat (upper_hex d) \<noteq> 61 \<and> unat (upper_hex d) \<noteq> 63
      \<and> unat (upper_hex d) \<noteq> 35" if "d < 16" for d
    using that by (simp add: unat_upper_hex)
  have r: "(of_nat b :: jschar) \<noteq> 38 \<and> (of_nat b :: jschar) \<noteq> 61 \<and> (of_nat b :: jschar) \<noteq> 63
      \<and> (of_nat b :: jschar) \<noteq> 35" if "unreserved b"
  proof -
    from that have "unat (of_nat b :: jschar) \<noteq> 38 \<and> unat (of_nat b :: jschar) \<noteq> 61
      \<and> unat (of_nat b :: jschar) \<noteq> 63 \<and> unat (of_nat b :: jschar) \<noteq> 35"
      using assms by (auto simp: unat_byte unreserved_def)
    then show ?thesis by auto
  qed
  from u [OF d(1)] u [OF d(2)] r show ?thesis
    by (auto simp: form_byte_def)
qed

lemma form_encode_units:
  "\<forall>c \<in> set (form_encode s).
     c \<noteq> ch CHR ''&'' \<and> c \<noteq> ch CHR ''='' \<and> c \<noteq> ch CHR ''?'' \<and> c \<noteq> ch CHR ''#''"
  using utf8_encode_bytes [of s] form_byte_units
  unfolding form_encode_def by (simp only: set_concat set_map) blast

lemma form_decode_byte:
  assumes "b < 256"
  shows "form_decode (form_byte b @ rest) = b # form_decode rest"
proof -
  have d: "b div 16 < 16" "b mod 16 < 16" using assms by simp_all
  have p: "upper_hex d \<noteq> 43" if "d < 16" for d
  proof
    assume "upper_hex d = 43"
    then have "unat (upper_hex d) = 43" by simp
    with that show False by (simp add: unat_upper_hex split: if_splits)
  qed
  consider "b = 0x20" | "b \<noteq> 0x20" "unreserved b" | "b \<noteq> 0x20" "\<not> unreserved b" by blast
  then show ?thesis
  proof cases
    case 1
    then show ?thesis by (simp add: form_byte_def form_decode_def)
  next
    case 2
    then have "unat (of_nat b :: jschar) = b" using assms by (simp add: unat_byte)
    moreover from this 2 have "(of_nat b :: jschar) \<noteq> 43" "(of_nat b :: jschar) \<noteq> 37"
      by (auto simp: unreserved_def)
    ultimately show ?thesis using 2 by (simp add: form_byte_def form_decode_def)
  next
    case 3
    with p [OF d(1)] p [OF d(2)] show ?thesis
      by (simp add: form_byte_def form_decode_def hex_val_upper_hex d)
  qed
qed

lemma form_decode_bytes:
  "\<forall>b \<in> set bs. b < 256 \<Longrightarrow> form_decode (concat (map form_byte bs)) = bs"
proof (induction bs)
  case Nil
  show ?case by (simp add: form_decode_def)
next
  case (Cons b bs)
  then show ?case by (simp add: form_decode_byte)
qed

lemma form_decode_encode: "form_decode (form_encode s) = utf8_encode s"
  unfolding form_encode_def by (rule form_decode_bytes) (rule utf8_encode_bytes)

lemma split_on_absent: "c \<notin> set a \<Longrightarrow> split_on c a = [a]"
  by (induction a) auto

lemma split_on_first: "c \<notin> set a \<Longrightarrow> split_on c (a @ c # b) = a # split_on c b"
  by (induction a) auto

lemma takeWhile_first: "c \<notin> set a \<Longrightarrow> takeWhile (\<lambda>x. x \<noteq> c) (a @ c # b) = a"
  by (induction a) auto

lemma dropWhile_first: "c \<notin> set a \<Longrightarrow> dropWhile (\<lambda>x. x \<noteq> c) (a @ c # b) = c # b"
  by (induction a) auto

lemma form_encode_free:
  "ch CHR ''&'' \<notin> set (form_encode s)" "ch CHR ''='' \<notin> set (form_encode s)"
  using form_encode_units [of s] by auto

lemma form_pair_free:
  "ch CHR ''&'' \<notin> set (form_encode k @ ch CHR ''='' # form_encode v)"
  using form_encode_free [of k] form_encode_free [of v] by simp

lemma form_parse_pair:
  "form_parse (form_encode k @ ch CHR ''='' # form_encode v)
     = [(utf8_encode k, utf8_encode v)]"
  using form_pair_free [of k v] form_encode_free(2) [of k]
  by (simp add: form_parse_def split_on_absent takeWhile_first dropWhile_first
      form_decode_encode del: set_append)

lemma form_parse_more:
  "form_parse ((form_encode k @ ch CHR ''='' # form_encode v) @ ch CHR ''&'' # rest)
     = (utf8_encode k, utf8_encode v) # form_parse rest"
  using form_pair_free [of k v] form_encode_free(2) [of k]
  by (simp add: form_parse_def split_on_first takeWhile_first dropWhile_first
      form_decode_encode del: set_append append_assoc)

lemma form_parse_serialize:
  "form_parse (form_serialize [(k1, v1), (k2, v2), (k3, v3)])
     = [(utf8_encode k1, utf8_encode v1), (utf8_encode k2, utf8_encode v2),
        (utf8_encode k3, utf8_encode v3)]"
proof -
  have "form_serialize [(k1, v1), (k2, v2), (k3, v3)] =
     (form_encode k1 @ ch CHR ''='' # form_encode v1) @ ch CHR ''&'' #
     (form_encode k2 @ ch CHR ''='' # form_encode v2) @ ch CHR ''&'' #
     (form_encode k3 @ ch CHR ''='' # form_encode v3)"
    by (simp add: form_serialize_def)
  then show ?thesis
    by (simp only: form_parse_more form_parse_pair)
qed

lemma encoded_constants:
  "form_encode (str ''response_type'') = str ''response_type''"
  "form_encode (str ''code'') = str ''code''"
  "form_encode (str ''client_id'') = str ''client_id''"
  "form_encode (str ''redirect_uri'') = str ''redirect_uri''"
  "form_encode REDIRECT_URI = str ''urn%3Aietf%3Awg%3Aoauth%3A2.0%3Aoob''"
  by code_simp+

lemma str_append: "str (a @ b) = str a @ str b"
  by (simp add: str_def)

lemma authorization_url_text:
  "getAuthorizationUrl m =
     str ''https://api.sharesight.com/oauth2/authorize?response_type=code&client_id=''
     @ form_encode (clientId m)
     @ str ''&redirect_uri=urn%3Aietf%3Awg%3Aoauth%3A2.0%3Aoob''"
  by (simp add: getAuthorizationUrl_def AUTH_URL_def form_serialize_def encoded_constants)
     (simp add: str_def)

section \<open>A text cut short\<close>

lemma push_unit_append:
  "push_unit c r = Some (s, rest) \<Longrightarrow>
   push_unit c (map_option (\<lambda>(s, rest). (s, rest @ q)) r) = Some (s, rest @ q)"
  by (auto simp: push_unit_def split: option.splits)

lemma lex_string_append:
  "lex_string cs = Some (s, rest) \<Longrightarrow> lex_string (cs @ q) = Some (s, rest @ q)"
proof (induction "length cs" arbitrary: cs s rule: less_induct)
  case less
  note IH = less.hyps
  show ?case
  proof (cases cs)
    case Nil
    with less.prems show ?thesis by simp
  next
    case outer: (Cons c cs')
    show ?thesis
    proof (cases "c = 0x22")
      case True
      with less.prems outer show ?thesis by simp
    next
      case nq: False
      show ?thesis
      proof (cases "c = 0x5C")
        case bs: True
        show ?thesis
        proof (cases cs')
          case Nil
          with less.prems outer nq bs show ?thesis by simp
        next
          case (Cons e es)
          show ?thesis
          proof (cases "e = ch CHR ''u''")
            case u: True
            from less.prems outer nq bs Cons u obtain h1 h2 h3 h4 r w
              where es: "es = h1 # h2 # h3 # h4 # r" and hx: "hex4 h1 h2 h3 h4 = Some w"
                and pu: "push_unit w (lex_string r) = Some (s, rest)"
              by (auto split: list.splits option.splits)
            from push_unit_Some [OF pu] obtain s' where r: "lex_string r = Some (s', rest)" ..
            have "length r < length cs" using outer Cons es by simp
            from IH [OF this r] have "lex_string (r @ q) = Some (s', rest @ q)" .
            with pu r have "push_unit w (lex_string (r @ q)) = Some (s, rest @ q)"
              by (simp add: push_unit_def)
            with outer nq bs Cons u es hx show ?thesis by simp
          next
            case nu: False
            from less.prems outer nq bs Cons nu obtain w
              where se: "simple_escape e = Some w"
                and pu: "push_unit w (lex_string es) = Some (s, rest)"
              by (auto split: option.splits)
            from push_unit_Some [OF pu] obtain s' where r: "lex_string es = Some (s', rest)" ..
            have "length es < length cs" using outer Cons by simp
            from IH [OF this r] have "lex_string (es @ q) = Some (s', rest @ q)" .
            with pu r have "push_unit w (lex_string (es @ q)) = Some (s, rest @ q)"
              by (simp add: push_unit_def)
            with outer nq bs Cons nu se show ?thesis by simp
          qed
        qed
      next
        case nbs: False
        from less.prems outer nq nbs
        have low: "\<not> unat c < 0x20" and pu: "push_unit c (lex_string cs') = Some (s, rest)"
          by (auto split: if_splits)
        from push_unit_Some [OF pu] obtain s' where r: "lex_string cs' = Some (s', rest)" ..
        have "length cs' < length cs" using outer by simp
        from IH [OF this r] have "lex_string (cs' @ q) = Some (s', rest @ q)" .
        with pu r have "push_unit c (lex_string (cs' @ q)) = Some (s, rest @ q)"
          by (simp add: push_unit_def)
        with outer nq nbs low show ?thesis by simp
      qed
    qed
  qed
qed

lemma scan_append:
  assumes "dropWhile stop s \<noteq> []"
  shows "takeWhile stop (s @ q) = takeWhile stop s"
    and "dropWhile stop (s @ q) = dropWhile stop s @ q"
  using assms by (induction s) auto

lemma lex_exponent_append:
  assumes "lex_exponent s = Some (e, rest)" and "rest \<noteq> []"
  shows "lex_exponent (s @ q) = Some (e, rest @ q)"
proof (cases s)
  case Nil
  with assms show ?thesis by (simp add: lex_exponent_def)
next
  case (Cons c cs)
  show ?thesis
  proof (cases "c = ch CHR ''e'' \<or> c = ch CHR ''E''")
    case False
    with assms Cons show ?thesis by (auto simp: lex_exponent_def)
  next
    case True
    define sd where "sd = (case cs of [] \<Rightarrow> (False, cs)
        | x # xs \<Rightarrow> if x = ch CHR ''-'' then (True, xs)
                    else if x = ch CHR ''+'' then (False, xs) else (False, cs))"
    obtain neg ds where sd': "sd = (neg, ds)" by (cases sd) auto
    from assms Cons True sd' have ne: "takeWhile is_digit ds \<noteq> []"
      and rest: "rest = dropWhile is_digit ds"
      and e: "e = (if neg then - int (nat_of_digits (takeWhile is_digit ds))
                   else int (nat_of_digits (takeWhile is_digit ds)))"
      by (auto simp: lex_exponent_def sd_def Let_def split: if_splits)
    from ne have dsne: "ds \<noteq> []" by auto
    have cs: "cs \<noteq> []" using dsne sd' by (auto simp: sd_def split: list.splits if_splits)
    have sdq: "(case cs @ q of [] \<Rightarrow> (False, cs @ q)
        | x # xs \<Rightarrow> if x = ch CHR ''-'' then (True, xs)
                    else if x = ch CHR ''+'' then (False, xs) else (False, cs @ q))
        = (neg, ds @ q)"
      using sd' cs by (cases cs) (auto simp: sd_def split: if_splits)
    from rest assms(2) have stop: "dropWhile is_digit ds \<noteq> []" by simp
    show ?thesis
      using Cons True ne rest e
      by (simp add: lex_exponent_def sdq Let_def scan_append(1) [OF stop]
          scan_append(2) [OF stop])
  qed
qed

lemma lex_fraction_append:
  assumes "lex_fraction s = Some (fp, rest)" and "rest \<noteq> []"
  shows "lex_fraction (s @ q) = Some (fp, rest @ q)"
proof (cases s)
  case Nil
  with assms show ?thesis by (simp add: lex_fraction_def)
next
  case (Cons c cs)
  show ?thesis
  proof (cases "c = ch CHR ''.''")
    case False
    with assms Cons show ?thesis by (auto simp: lex_fraction_def)
  next
    case True
    with assms Cons have "takeWhile is_digit cs \<noteq> []" "rest = dropWhile is_digit cs"
      "fp = takeWhile is_digit cs"
      by (auto simp: lex_fraction_def split: if_splits)
    with assms(2) Cons True show ?thesis
      by (simp add: lex_fraction_def scan_append)
  qed
qed

lemma lex_number_append:
  assumes "lex_number s = Some (v, rest)" and "rest \<noteq> []"
  shows "lex_number (s @ q) = Some (v, rest @ q)"
proof -
  define sg where "sg = (case s of [] \<Rightarrow> (False, s)
      | c # cs \<Rightarrow> if c = ch CHR ''-'' then (True, cs) else (False, s))"
  obtain neg s1 where sg': "sg = (neg, s1)" by (cases sg) auto
  from assms(1) sg' obtain fp s2 e where ip: "takeWhile is_digit s1 \<noteq> []"
    and lz: "\<not> (1 < length (takeWhile is_digit s1) \<and> hd (takeWhile is_digit s1) = digit_char 0)"
    and fr: "lex_fraction (dropWhile is_digit s1) = Some (fp, s2)"
    and ex: "lex_exponent s2 = Some (e, rest)"
    and v: "v = decimal neg (takeWhile is_digit s1) fp e"
    by (auto simp: lex_number_def Let_def sg_def split: option.splits if_splits)
  from ip have s1ne: "s1 \<noteq> []" by auto
  then have sne: "s \<noteq> []" using sg' by (auto simp: sg_def)
  have sgq: "(case s @ q of [] \<Rightarrow> (False, s @ q)
      | c # cs \<Rightarrow> if c = ch CHR ''-'' then (True, cs) else (False, s @ q)) = (neg, s1 @ q)"
    using sg' sne by (cases s) (auto simp: sg_def split: if_splits)
  have s2ne: "s2 \<noteq> []"
    using lex_exponent_shorter [OF ex] assms(2) by auto
  have stop: "dropWhile is_digit s1 \<noteq> []"
  proof
    assume "dropWhile is_digit s1 = []"
    with lex_fraction_shorter [OF fr] have "length s2 \<le> 0" by (simp del: dropWhile_eq_Nil_conv)
    with s2ne show False by simp
  qed
  show ?thesis
    using ip lz v
    by (simp add: lex_number_def sgq Let_def scan_append(1) [OF stop]
        scan_append(2) [OF stop] lex_fraction_append [OF fr s2ne]
        lex_exponent_append [OF ex assms(2)])
qed

lemma emit_Some: "emit t r = Some ts \<Longrightarrow> \<exists>tr. r = Some tr \<and> ts = t # tr"
  by (auto simp: emit_def)

lemma tokenize_append:
  "tokenize p = Some tp \<Longrightarrow> tp = [] \<or> (\<forall>m k. last tp \<noteq> TNumber m k) \<Longrightarrow>
   tokenize (p @ q) = map_option ((@) tp) (tokenize q)"
proof (induction "length p" arbitrary: p tp rule: less_induct)
  case less
  note IH = less.hyps
  have one: "tokenize (p @ q) = map_option ((@) tp) (tokenize q)"
    if p: "tokenize p = emit t (tokenize r)"
      and pq: "\<And>tr. tokenize r = Some tr \<Longrightarrow> tp = t # tr \<Longrightarrow>
                tokenize (p @ q) = emit t (tokenize (r @ q))"
      and len: "length r < length p" for t r
  proof -
    from p less.prems(1) emit_Some [of t "tokenize r" tp]
    obtain tr where tr: "tokenize r = Some tr" "tp = t # tr" by auto
    with less.prems(2) have "tr = [] \<or> (\<forall>m k. last tr \<noteq> TNumber m k)" by auto
    from IH [OF len tr(1) this] pq [OF tr] tr(2) show ?thesis
      by (cases "tokenize q") (simp_all add: emit_def)
  qed
  show ?case
  proof (cases p)
    case Nil
    with less.prems show ?thesis
      by (cases "tokenize q") (simp_all add: tokenize.simps)
  next
    case (Cons c cs)
    consider (space) "is_json_space c"
      | (punct) "\<not> is_json_space c"
          "c = ch CHR ''{'' \<or> c = ch CHR ''}'' \<or> c = ch CHR ''['' \<or> c = ch CHR '']''
           \<or> c = ch CHR '':'' \<or> c = ch CHR '',''"
      | (string) "\<not> is_json_space c" "c = 0x22"
      | (number) "\<not> is_json_space c" "c = ch CHR ''-'' \<or> is_digit c"
      | (other) "\<not> is_json_space c"
          "\<not> (c = ch CHR ''{'' \<or> c = ch CHR ''}'' \<or> c = ch CHR ''['' \<or> c = ch CHR '']''
           \<or> c = ch CHR '':'' \<or> c = ch CHR '','')" "c \<noteq> 0x22"
          "\<not> (c = ch CHR ''-'' \<or> is_digit c)"
      by blast
    then show ?thesis
    proof cases
      case space
      then have "tokenize p = tokenize cs" "tokenize (p @ q) = tokenize (cs @ q)"
        by (simp_all add: Cons tokenize.simps)
      with IH [of cs tp] less.prems Cons show ?thesis by simp
    next
      case punct
      then obtain t where "tokenize p = emit t (tokenize cs)"
        "tokenize (p @ q) = emit t (tokenize (cs @ q))"
        by (auto simp: Cons tokenize.simps is_json_space_def)
      then show ?thesis using Cons by (intro one [of t cs]) simp_all
    next
      case string
      from string less.prems(1) Cons obtain s rest
        where ls: "lex_string cs = Some (s, rest)"
        by (auto simp: tokenize.simps is_json_space_def split: option.splits)
      with string have "tokenize p = emit (TString s) (tokenize rest)"
        by (simp add: Cons tokenize.simps is_json_space_def)
      moreover from string lex_string_append [OF ls, of q]
      have "tokenize (p @ q) = emit (TString s) (tokenize (rest @ q))"
        by (simp add: Cons tokenize.simps is_json_space_def)
      moreover have "length rest < length p"
        using lex_string_shorter [OF ls] Cons by simp
      ultimately show ?thesis by (intro one [of "TString s" rest]) simp_all
    next
      case number
      then have np: "c \<noteq> ch CHR ''{''" "c \<noteq> ch CHR ''}''" "c \<noteq> ch CHR ''[''"
        "c \<noteq> ch CHR '']''" "c \<noteq> ch CHR '':''" "c \<noteq> ch CHR '',''" "c \<noteq> 0x22"
        by (auto simp: is_digit_def)
      with number less.prems(1) Cons obtain m k rest
        where ln: "lex_number (c # cs) = Some ((m, k), rest)"
        by (auto simp: tokenize.simps split: option.splits)
      with number np have tp: "tokenize p = emit (TNumber m k) (tokenize rest)"
        by (simp add: Cons tokenize.simps)
      have "tokenize (p @ q) = emit (TNumber m k) (tokenize (rest @ q))"
        if "tokenize rest = Some tr" "tp = TNumber m k # tr" for tr
      proof -
        from that less.prems(2) have "tr \<noteq> []" by auto
        with that(1) have "rest \<noteq> []" by (auto simp: tokenize.simps)
        from lex_number_append [OF ln this, of q] number np show ?thesis
          by (simp add: Cons tokenize.simps)
      qed
      moreover have "length rest < length p"
        using lex_number_shorter [OF ln] Cons by simp
      ultimately show ?thesis using tp by (intro one [of "TNumber m k" rest]) simp_all
    next
      case other
      from other less.prems(1) Cons
      consider (t) "take 4 (c # cs) = str ''true''"
        | (f) "take 4 (c # cs) \<noteq> str ''true''" "take 5 (c # cs) = str ''false''"
        | (n) "take 4 (c # cs) \<noteq> str ''true''" "take 5 (c # cs) \<noteq> str ''false''"
              "take 4 (c # cs) = str ''null''"
        by (auto simp: tokenize.simps split: if_splits)
      then show ?thesis
      proof cases
        case t
        then have l: "4 \<le> length (c # cs)" by (auto simp: str_def dest: arg_cong [where f = length])
        with t have "take 4 ((c # cs) @ q) = str ''true''" by simp
        with other t l have "tokenize p = emit TTrue (tokenize (drop 3 cs))"
          "tokenize (p @ q) = emit TTrue (tokenize (drop 3 cs @ q))"
          by (simp_all add: Cons tokenize.simps)
        then show ?thesis using Cons by (intro one [of TTrue "drop 3 cs"]) simp_all
      next
        case f
        then have l: "5 \<le> length (c # cs)" by (auto simp: str_def dest: arg_cong [where f = length])
        with f have "take 5 ((c # cs) @ q) = str ''false''" "take 4 ((c # cs) @ q) \<noteq> str ''true''"
          by simp_all
        with other f l have "tokenize p = emit TFalse (tokenize (drop 4 cs))"
          "tokenize (p @ q) = emit TFalse (tokenize (drop 4 cs @ q))"
          by (simp_all add: Cons tokenize.simps)
        then show ?thesis using Cons by (intro one [of TFalse "drop 4 cs"]) simp_all
      next
        case n
        then have l: "3 \<le> length cs"
          by (auto simp: str_def dest: arg_cong [where f = length])
        with n have "take 4 ((c # cs) @ q) = str ''null''" by simp
        moreover from this have "take 4 ((c # cs) @ q) \<noteq> str ''true''"
          "take 5 ((c # cs) @ q) \<noteq> str ''false''"
          by (auto simp: str_def dest: arg_cong [where f = "take 1"])
        ultimately have "tokenize p = emit TNull (tokenize (drop 3 cs))"
          "tokenize (p @ q) = emit TNull (tokenize (drop 3 cs @ q))"
          using other n l by (simp_all add: Cons tokenize.simps)
        then show ?thesis using Cons by (intro one [of TNull "drop 3 cs"]) simp_all
      qed
    qed
  qed
qed

lemma run_append:
  "run c (ts @ us) = (case run c ts of None \<Rightarrow> None | Some c' \<Rightarrow> run c' us)"
  by (induction ts arbitrary: c) (simp_all split: option.splits)

lemma run_Done: "run (Done v, st) us = Some c' \<Longrightarrow> us = []"
  by (cases us) simp_all

lemma deliver_shape:
  "deliver v st = Some (e', st') \<Longrightarrow>
   (st = [] \<and> e' = Done v \<and> st' = []) \<or> (st \<noteq> [] \<and> e' = CommaOrEnd \<and> st' \<noteq> [])"
  by (induction v st rule: deliver.induct) auto

lemma start_value_shape:
  "start_value t st = Some (e', st') \<Longrightarrow> st \<noteq> [] \<Longrightarrow> st' \<noteq> [] \<and> (\<forall>u. e' \<noteq> Done u)"
  by (auto simp: start_value_def split: if_splits option.splits dest!: deliver_shape)

lemma close_array_shape:
  "close_array st = Some (e', st') \<Longrightarrow>
   ((\<exists>v. e' = Done v) \<and> st' = []) \<or> (st' \<noteq> [] \<and> (\<forall>u. e' \<noteq> Done u))"
  by (induction st rule: close_array.induct) (auto dest!: deliver_shape)

lemma close_object_shape:
  "close_object st = Some (e', st') \<Longrightarrow>
   ((\<exists>v. e' = Done v) \<and> st' = []) \<or> (st' \<noteq> [] \<and> (\<forall>u. e' \<noteq> Done u))"
  by (induction st rule: close_object.induct) (auto dest!: deliver_shape)

lemma take_key_shape:
  "take_key t st = Some (e', st') \<Longrightarrow> st' \<noteq> [] \<and> (\<forall>u. e' \<noteq> Done u)"
  by (induction t st rule: take_key.induct) auto

lemma after_comma_shape:
  "after_comma st = Some (e', st') \<Longrightarrow> st' \<noteq> [] \<and> (\<forall>u. e' \<noteq> Done u)"
  by (induction st rule: after_comma.induct) auto

lemma step_shape:
  assumes "step (e, st) t = Some (e', st')" and "st \<noteq> []"
  shows "((\<exists>v. e' = Done v) \<and> st' = [] \<and> (t = TRBrace \<or> t = TRBracket))
       \<or> (st' \<noteq> [] \<and> (\<forall>u. e' \<noteq> Done u))"
  using assms
  by (cases e)
     (auto split: if_splits
       dest: start_value_shape close_array_shape close_object_shape take_key_shape
         after_comma_shape)

lemma run_closes:
  "run (e, st) ts = Some (Done v, []) \<Longrightarrow> st \<noteq> [] \<Longrightarrow>
   ts \<noteq> [] \<and> (last ts = TRBrace \<or> last ts = TRBracket)"
proof (induction ts arbitrary: e st)
  case Nil
  then show ?case by simp
next
  case (Cons t ts)
  from Cons.prems(1) obtain e1 st1 where s: "step (e, st) t = Some (e1, st1)"
    and r: "run (e1, st1) ts = Some (Done v, [])"
    by (auto split: option.splits)
  from step_shape [OF s Cons.prems(2)] show ?case
  proof
    assume d: "(\<exists>v. e1 = Done v) \<and> st1 = [] \<and> (t = TRBrace \<or> t = TRBracket)"
    then obtain u where "e1 = Done u" by blast
    with r run_Done [of u st1 ts] have "ts = []" by simp
    with d show ?thesis by simp
  next
    assume "st1 \<noteq> [] \<and> (\<forall>u. e1 \<noteq> Done u)"
    with Cons.IH [OF r] show ?thesis by auto
  qed
qed

lemma emit_not_Nil: "emit t r \<noteq> Some []"
  by (cases r) (simp_all add: emit_def)

lemma tokenize_Nil_spaces: "tokenize q = Some [] \<Longrightarrow> \<forall>c \<in> set q. is_json_space c"
proof (induction q)
  case Nil
  show ?case by simp
next
  case (Cons c cs)
  show ?case
  proof (cases "is_json_space c")
    case True
    with Cons show ?thesis by (simp add: tokenize.simps)
  next
    case False
    with Cons.prems emit_not_Nil have False
      by (auto simp: tokenize.simps split: if_splits option.splits)
    then show ?thesis ..
  qed
qed

lemma JSON_parse_Some:
  "JSON_parse s = Some v \<Longrightarrow>
   \<exists>ts. tokenize s = Some ts \<and> run (Value, []) ts = Some (Done v, [])"
  by (auto simp: JSON_parse_def split: option.splits expect.splits list.splits)

lemma cut_object_text:
  assumes whole: "JSON_parse s = Some v" and first: "s = ch CHR ''{'' # s'"
    and final: "last s = ch CHR ''}''" and n: "n < length s"
  shows "JSON_parse (take n s) = None"
proof (rule ccontr)
  assume "JSON_parse (take n s) \<noteq> None"
  then obtain v' where "JSON_parse (take n s) = Some v'" by auto
  from JSON_parse_Some [OF this] obtain tp
    where tp: "tokenize (take n s) = Some tp" and rp: "run (Value, []) tp = Some (Done v', [])"
    by blast
  define q where "q = drop n s"
  have q: "q \<noteq> []" "s = take n s @ q" using n by (simp_all add: q_def)
  have "n \<noteq> 0"
  proof
    assume "n = 0"
    with tp have "tp = []" by (simp add: tokenize.simps)
    with rp show False by simp
  qed
  then obtain k where k: "n = Suc k" by (cases n) auto
  with first have p: "take n s = ch CHR ''{'' # take k s'" by simp
  with tp obtain tr where tr: "tp = TLBrace # tr"
    by (auto simp: tokenize.simps is_json_space_def emit_def)
  with rp have "run (KeyOrEnd, [FObj [] None]) tr = Some (Done v', [])"
    by (simp add: start_value_def)
  from run_closes [OF this] have "tr \<noteq> []" "last tr = TRBrace \<or> last tr = TRBracket"
    by simp_all
  with tr have "tp = [] \<or> (\<forall>m k. last tp \<noteq> TNumber m k)" by auto
  from tokenize_append [OF tp this, of q] q(2)
  have ts: "tokenize s = map_option ((@) tp) (tokenize q)" by simp
  from JSON_parse_Some [OF whole] obtain ts'
    where ts': "tokenize s = Some ts'" and rs: "run (Value, []) ts' = Some (Done v, [])"
    by blast
  from ts ts' obtain tq where tq: "tokenize q = Some tq" "ts' = tp @ tq"
    by (cases "tokenize q") auto
  from rs tq(2) rp have "run (Done v', []) tq = Some (Done v, [])"
    by (simp add: run_append)
  from run_Done [OF this] tq(1) have "tokenize q = Some []" by simp
  from tokenize_Nil_spaces [OF this] q(1) have "is_json_space (last q)" by simp
  moreover from q have "last q = last s" by (metis last_appendR)
  ultimately show False using final by (simp add: is_json_space_def)
qed

lemma StoredTokens_text_ends:
  "\<exists>s'. JSON_stringify (StoredTokens a r e t) = ch CHR ''{'' # s'"
  "last (JSON_stringify (StoredTokens a r e t)) = ch CHR ''}''"
  by (simp_all add: JSON_stringify_def StoredTokens_def)

lemma cut_StoredTokens:
  assumes "\<bar>e\<bar> < 10 ^ 21" and "n < length (JSON_stringify (StoredTokens a r e t))"
  shows "JSON_parse (take n (JSON_stringify (StoredTokens a r e t))) = None"
proof -
  from StoredTokens_text_ends(1) [of a r e t]
  obtain s' where "JSON_stringify (StoredTokens a r e t) = ch CHR ''{'' # s'" ..
  from cut_object_text [OF parse_StoredTokens [OF assms(1)] this StoredTokens_text_ends(2) assms(2)]
  show ?thesis .
qed

section \<open>The claims\<close>

text \<open>
  C1. \<open>getValidAccessToken\<close> throws "Not authorized ..." when there is no record.
  When the record's \<open>expires_at\<close> has been reached it is one call of
  \<open>refreshTokens\<close>, whose error it passes on and after which it returns the access
  token of the new record. That call sends exactly one request, the refresh with
  the stored refresh token as a string; should the stored refresh token be a value
  whose conversion to a string throws, that TypeError is passed on and nothing is
  sent. When \<open>expires_at\<close> lies ahead it returns the stored access token and
  leaves the manager and the world, with the requests sent, as they were.
\<close>

theorem getValidAccessToken_lazy_refresh:
  "(tokens m = JNull \<longrightarrow>
      getValidAccessToken m w =
        (Inl (Error (str ''Not authorized. Please run authorization flow first.'')), m, w))
   \<and> (get_prop (tokens m) (str ''expires_at'') = Some (JInt e) \<and> e \<le> clock w \<longrightarrow>
        getValidAccessToken m w =
          (case refreshTokens m w of
             (Inl x, m', w') \<Rightarrow> (Inl x, m', w')
           | (Inr u, m', w') \<Rightarrow> (Inr (get_prop (tokens m') (str ''access_token'')), m', w'))
        \<and> (\<forall>old s. stored_refresh_token m = Some old \<and> truthy old \<and> to_string old = Inr s \<longrightarrow>
              sent (snd (snd (refreshTokens m w))) = sent w @ [refresh_request m s])
        \<and> (\<forall>old x. stored_refresh_token m = Some old \<and> truthy old \<and> to_string old = Inl x \<longrightarrow>
              getValidAccessToken m w = (Inl x, m, w)))
   \<and> (get_prop (tokens m) (str ''expires_at'') = Some (JInt e) \<and> clock w < e \<longrightarrow>
        getValidAccessToken m w = (Inr (get_prop (tokens m) (str ''access_token'')), m, w))"
proof (intro conjI impI)
  assume "tokens m = JNull"
  then show "getValidAccessToken m w =
        (Inl (Error (str ''Not authorized. Please run authorization flow first.'')), m, w)"
    by (simp add: getValidAccessToken_def)
next
  assume h: "get_prop (tokens m) (str ''expires_at'') = Some (JInt e) \<and> e \<le> clock w"
  with get_prop_Some_truthy [of "tokens m" "str ''expires_at''" "JInt e"]
  show call: "getValidAccessToken m w =
          (case refreshTokens m w of
             (Inl x, m', w') \<Rightarrow> (Inl x, m', w')
           | (Inr u, m', w') \<Rightarrow> (Inr (get_prop (tokens m') (str ''access_token'')), m', w'))"
    by (simp add: getValidAccessToken_def isTokenExpired_def now_ge_def
        split: prod.splits sum.splits)
  show "\<forall>old s. stored_refresh_token m = Some old \<and> truthy old \<and> to_string old = Inr s \<longrightarrow>
              sent (snd (snd (refreshTokens m w))) = sent w @ [refresh_request m s]"
    by (simp add: refresh_sends_once)
  show "\<forall>old x. stored_refresh_token m = Some old \<and> truthy old \<and> to_string old = Inl x \<longrightarrow>
              getValidAccessToken m w = (Inl x, m, w)"
    unfolding call by (simp add: refresh_not_convertible)
next
  assume h: "get_prop (tokens m) (str ''expires_at'') = Some (JInt e) \<and> clock w < e"
  with get_prop_Some_truthy [of "tokens m" "str ''expires_at''" "JInt e"]
  show "getValidAccessToken m w = (Inr (get_prop (tokens m) (str ''access_token'')), m, w)"
    by (simp add: getValidAccessToken_def isTokenExpired_def now_ge_def)
qed

theorem getValidAccessToken_lazy_refresh_witness:
  "getValidAccessToken manager0 world0 =
     (Inl (Error (str ''Not authorized. Please run authorization flow first.'')),
      manager0, world0)
   \<and> (\<exists>m' w'. getValidAccessToken
         (manager0\<lparr>tokens := StoredTokens (str ''A1'') (str ''R1'') 3540000 (str ''Bearer'')\<rparr>)
         (answers (Resolved response_A2) (world0\<lparr>clock := 3600000\<rparr>))
       = (Inr (Some (JStr (str ''A2''))), m', w')
       \<and> length (sent w') = 1)
   \<and> getValidAccessToken
         (manager0\<lparr>tokens := StoredTokens (str ''A1'') (str ''R1'') 3540000 (str ''Bearer'')\<rparr>)
         (answers (Resolved response_A2) (world0\<lparr>clock := 1000\<rparr>))
       = (Inr (Some (JStr (str ''A1''))),
          manager0\<lparr>tokens := StoredTokens (str ''A1'') (str ''R1'') 3540000 (str ''Bearer'')\<rparr>,
          answers (Resolved response_A2) (world0\<lparr>clock := 1000\<rparr>))"
proof -
  let ?m = "manager0\<lparr>tokens := StoredTokens (str ''A1'') (str ''R1'') 3540000 (str ''Bearer'')\<rparr>"
  let ?w = "answers (Resolved response_A2) (world0\<lparr>clock := 3600000\<rparr>)"
  let ?u = "answers (Resolved response_A2) (world0\<lparr>clock := 1000\<rparr>)"
  have a: "getValidAccessToken manager0 world0 =
     (Inl (Error (str ''Not authorized. Please run authorization flow first.'')),
      manager0, world0)"
    using getValidAccessToken_lazy_refresh [where m = manager0 and w = world0]
    by (simp add: manager0_def)
  have net: "network ?w (length (sent ?w)) = (0, Resolved response_A2)"
    by (simp add: answers_def)
  have rt: "stored_refresh_token ?m = Some (JStr (str ''R1''))" "truthy (JStr (str ''R1''))"
    "to_string (JStr (str ''R1'')) = Inr (str ''R1'')"
    by (simp_all add: stored_refresh_token_StoredTokens str_eq_Nil)
  have clk: "clock ?w = 3600000" "clock ?u = 1000" "sent ?w = []"
    by (simp_all add: answers_def world0_def)
  have b: "\<exists>m' w'. getValidAccessToken ?m ?w = (Inr (Some (JStr (str ''A2''))), m', w')
       \<and> length (sent w') = 1"
    using getValidAccessToken_lazy_refresh [where m = ?m and e = 3540000 and w = ?w] rt
    by (simp add: StoredTokens_props clk
        refresh_success [OF rt net response_fields(2) response_fields(5)] keys_distinct)
  have c: "getValidAccessToken ?m ?u = (Inr (Some (JStr (str ''A1''))), ?m, ?u)"
    using getValidAccessToken_lazy_refresh [where m = ?m and e = 3540000 and w = ?u]
    by (simp add: StoredTokens_props clk)
  from a b c show ?thesis by blast
qed

text \<open>
  C2. When the token endpoint answers a refresh with a status outside 200..299,
  \<open>refreshTokens\<close> throws "Token refresh failed ... Please re-authorize.", the
  record in memory is cleared and the tokens file is removed. From then on
  \<open>hasValidTokens\<close> is false after every sequence of calls in which no exchange
  succeeds. (The endpoint gets to answer when the refresh request is made: the
  stored refresh token is truthy and converts to a string.)
\<close>

theorem refresh_rejection_destroys_record:
  assumes "stored_refresh_token m = Some old" and "truthy old" and "to_string old = Inr s"
    and "network w (length (sent w)) = (d, Resolved r)" and "\<not> ok r"
  shows "\<exists>m' w'. refreshTokens m w =
           (Inl (Error (str ''Token refresh failed ('' @ digits_of (status r) @ str ''): ''
                        @ body_text r @ str ''. Please re-authorize.'')), m', w')
      \<and> tokens m' = JNull \<and> tokens_file w' = None \<and> \<not> hasValidTokens m'
      \<and> (\<forall>cs w''. no_authorization cs (m', w'') \<longrightarrow>
            \<not> hasValidTokens (fst (run_calls cs (m', w''))))"
proof -
  have later: "\<not> hasValidTokens (fst (run_calls cs (m\<lparr>tokens := JNull\<rparr>, w'')))"
    if "no_authorization cs (m\<lparr>tokens := JNull\<rparr>, w'')" for cs w''
    using that by (intro unauthorized_calls) simp_all
  have "\<not> hasValidTokens (m\<lparr>tokens := JNull\<rparr>)"
    by (simp add: hasValidTokens_def)
  with later show ?thesis
    unfolding refresh_rejected [OF assms] by auto
qed

theorem refresh_rejection_destroys_record_witness:
  "\<exists>m' w'. refreshTokens
        (manager0\<lparr>tokens := StoredTokens (str ''A1'') (str ''R1'') 3540000 (str ''Bearer'')\<rparr>)
        (answers (Resolved response_401) world0)
      = (Inl (Error (str ''Token refresh failed (401): invalid_grant. Please re-authorize.'')),
         m', w')
      \<and> tokens m' = JNull \<and> tokens_file w' = None \<and> \<not> hasValidTokens m'
      \<and> \<not> hasValidTokens (fst (run_calls
            [GetValidAccessToken, ExchangeCodeForTokens (str ''code''), HasValidTokens] (m', w')))"
proof -
  let ?m = "manager0\<lparr>tokens := StoredTokens (str ''A1'') (str ''R1'') 3540000 (str ''Bearer'')\<rparr>"
  let ?w = "answers (Resolved response_401) world0"
  let ?cs = "[GetValidAccessToken, ExchangeCodeForTokens (str ''code''), HasValidTokens]"
  have net: "network ?w (length (sent ?w)) = (0, Resolved response_401)"
    by (simp add: answers_def)
  have rt: "stored_refresh_token ?m = Some (JStr (str ''R1''))" "truthy (JStr (str ''R1''))"
    "to_string (JStr (str ''R1'')) = Inr (str ''R1'')"
    by (simp_all add: stored_refresh_token_StoredTokens str_eq_Nil)
  from refresh_rejection_destroys_record [OF rt net response_fields(3)]
  obtain m' w' where r: "refreshTokens ?m ?w =
           (Inl (Error (str ''Token refresh failed (401): invalid_grant. Please re-authorize.'')),
            m', w')"
      and s: "tokens m' = JNull" "tokens_file w' = None" "\<not> hasValidTokens m'"
      and later: "\<And>cs w''. no_authorization cs (m', w'') \<Longrightarrow>
            \<not> hasValidTokens (fst (run_calls cs (m', w'')))"
    unfolding response_fields message_401 by blast
  from r have w': "w' = ?w\<lparr>clock := clock ?w + int 0,
      sent := sent ?w @ [refresh_request ?m (str ''R1'')], tokens_file := None\<rparr>"
    by (simp add: refresh_rejected [OF rt net response_fields(3)])
  have net': "network w' (length (sent w')) = (0, Resolved response_401)"
    by (simp add: w' answers_def)
  have "no_authorization ?cs (m', w')"
    using s(1) by (simp add: getValidAccessToken_def exchange_rejected [OF net' response_fields(3)])
  from later [OF this] r s show ?thesis by blast
qed




text \<open>
  C4. After a refresh that the token endpoint answers with success, the new record
  takes \<open>access_token\<close>, \<open>expires_at\<close> and \<open>token_type\<close> from the answer, the
  expiry being the sum computed from its \<open>expires_in\<close>. When the answer has no
  \<open>refresh_token\<close> the record keeps the refresh token stored before; when it has
  one the record holds the new one. An empty string is no refresh token: it is
  falsy, and the record keeps the token stored before. The file holds the
  serialization of the new record, and a manager constructed on that file reads
  the same record back. (The endpoint gets to answer when the refresh request is
  made: the stored refresh token is truthy and converts to a string.)
\<close>

theorem refresh_token_retention:
  assumes "stored_refresh_token m = Some old" and "truthy old" and "to_string old = Inr s"
    and "network w (length (sent w)) = (d, Resolved r)" and "ok r"
    and "body_json r = Some data"
  shows "\<exists>m' w'. refreshTokens m w = (Inr (), m', w')
      \<and> get_prop (tokens m') (str ''access_token'') = Some (JStr (access_token data))
      \<and> get_prop (tokens m') (str ''expires_at'')
          = Some (number_json (expiry (clock w + int d) (expires_in data)))
      \<and> get_prop (tokens m') (str ''token_type'') = Some (JStr (token_type data))
      \<and> (refresh_token data = None \<longrightarrow>
            get_prop (tokens m') (str ''refresh_token'') = Some old)
      \<and> (\<forall>t. refresh_token data = Some t \<and> t \<noteq> [] \<longrightarrow>
            get_prop (tokens m') (str ''refresh_token'') = Some (JStr t))
      \<and> (refresh_token data = Some [] \<longrightarrow>
            get_prop (tokens m') (str ''refresh_token'') = Some old)
      \<and> tokens_file w' = Some (to_well_formed (JSON_stringify (tokens m')))
      \<and> (\<forall>e. old = JStr s \<and> expiry (clock w + int d) (expires_in data) = Whole e
               \<and> \<bar>e\<bar> < 10 ^ 21 \<longrightarrow>
            tokens (new_OAuthManager cid secret w') = tokens m')"
proof -
  let ?x = "expiry (clock w + int d) (expires_in data)"
  let ?new = "case refresh_token data of None \<Rightarrow> old
             | Some t \<Rightarrow> if t \<noteq> [] then JStr t else old"
  let ?rec = "JObj [(str ''access_token'', JStr (access_token data)),
         (str ''refresh_token'', ?new),
         (str ''expires_at'', number_json ?x),
         (str ''token_type'', JStr (token_type data))]"
  have read_back: "JSON_parse (to_well_formed (JSON_stringify ?rec)) = Some ?rec"
    if h: "old = JStr s" "?x = Whole e" "\<bar>e\<bar> < 10 ^ 21" for e
  proof -
    have "\<exists>s'. ?new = JStr s'"
      using h(1) by (cases "refresh_token data") auto
    then obtain s' where "?new = JStr s'" ..
    then have "?rec = StoredTokens (access_token data) s' e (token_type data)"
      by (simp add: StoredTokens_def h(2))
    then show ?thesis
      using parse_StoredTokens [OF h(3)] well_formed_StoredTokens [OF h(3)] by simp
  qed
  show ?thesis
    unfolding refresh_success [OF assms]
    using read_back
    by (auto simp: keys_distinct new_OAuthManager_def loadTokens_def)
qed

theorem refresh_token_retention_witness:
  "(\<exists>m' w'. refreshTokens
        (manager0\<lparr>tokens := StoredTokens (str ''A1'') (str ''R1'') 3540000 (str ''Bearer'')\<rparr>)
        (answers (Resolved response_A2) (world0\<lparr>clock := 3600000\<rparr>)) = (Inr (), m', w')
      \<and> get_prop (tokens m') (str ''access_token'') = Some (JStr (str ''A2''))
      \<and> get_prop (tokens m') (str ''expires_at'') = Some (JInt 7140000)
      \<and> get_prop (tokens m') (str ''token_type'') = Some (JStr (str ''Bearer''))
      \<and> get_prop (tokens m') (str ''refresh_token'') = Some (JStr (str ''R1''))
      \<and> tokens (new_OAuthManager (str ''id'') (str ''secret'') w') = tokens m')
   \<and> (\<exists>m' w'. refreshTokens
        (manager0\<lparr>tokens := StoredTokens (str ''A0'') (str ''R0'') 0 (str ''Bearer'')\<rparr>)
        (answers (Resolved response_A1) world0) = (Inr (), m', w')
      \<and> get_prop (tokens m') (str ''access_token'') = Some (JStr (str ''A1''))
      \<and> get_prop (tokens m') (str ''refresh_token'') = Some (JStr (str ''R1'')))"
proof -
  let ?m = "manager0\<lparr>tokens := StoredTokens (str ''A1'') (str ''R1'') 3540000 (str ''Bearer'')\<rparr>"
  let ?w = "answers (Resolved response_A2) (world0\<lparr>clock := 3600000\<rparr>)"
  let ?n = "manager0\<lparr>tokens := StoredTokens (str ''A0'') (str ''R0'') 0 (str ''Bearer'')\<rparr>"
  let ?u = "answers (Resolved response_A1) world0"
  have net: "network ?w (length (sent ?w)) = (0, Resolved response_A2)"
    "network ?u (length (sent ?u)) = (0, Resolved response_A1)"
    by (simp_all add: answers_def)
  have clk: "clock ?w = 3600000" "clock ?u = 0"
    by (simp_all add: answers_def world0_def)
  have rt: "stored_refresh_token ?m = Some (JStr (str ''R1''))" "truthy (JStr (str ''R1''))"
    "stored_refresh_token ?n = Some (JStr (str ''R0''))" "truthy (JStr (str ''R0''))"
    by (simp_all add: stored_refresh_token_StoredTokens str_eq_Nil)
  have ts: "to_string (JStr (str ''R1'')) = Inr (str ''R1'')"
    "to_string (JStr (str ''R0'')) = Inr (str ''R0'')"
    by simp_all
  from refresh_token_retention [OF rt(1,2) ts(1) net(1) response_fields(2) response_fields(5),
      of "str ''id''" "str ''secret''"]
  have a: "\<exists>m' w'. refreshTokens ?m ?w = (Inr (), m', w')
      \<and> get_prop (tokens m') (str ''access_token'') = Some (JStr (str ''A2''))
      \<and> get_prop (tokens m') (str ''expires_at'') = Some (JInt 7140000)
      \<and> get_prop (tokens m') (str ''token_type'') = Some (JStr (str ''Bearer''))
      \<and> get_prop (tokens m') (str ''refresh_token'') = Some (JStr (str ''R1''))
      \<and> tokens (new_OAuthManager (str ''id'') (str ''secret'') w') = tokens m'"
    by (simp add: clk expiry_hour) blast
  from refresh_token_retention [OF rt(3,4) ts(2) net(2) response_fields(1) response_fields(4),
      of "str ''id''" "str ''secret''"]
  have b: "\<exists>m' w'. refreshTokens ?n ?u = (Inr (), m', w')
      \<and> get_prop (tokens m') (str ''access_token'') = Some (JStr (str ''A1''))
      \<and> get_prop (tokens m') (str ''refresh_token'') = Some (JStr (str ''R1''))"
    by (auto simp: clk str_eq_Nil)
  from a b show ?thesis by blast
qed

text \<open>
  C5, as stated, fails: a file that holds only an access token is valid JSON, so
  the constructor keeps the parsed object as the record, and \<open>hasValidTokens\<close> is
  true although three of the four fields are missing.
\<close>

theorem partial_record_counterexample:
  \<open>hasValidTokens (new_OAuthManager (str ''id'') (str ''secret'')
      (world0\<lparr>tokens_file := Some (str ''{"access_token":"A"}'')\<rparr>))
   \<and> get_prop (tokens (new_OAuthManager (str ''id'') (str ''secret'')
      (world0\<lparr>tokens_file := Some (str ''{"access_token":"A"}'')\<rparr>))) (str ''refresh_token'') = None
   \<and> get_prop (tokens (new_OAuthManager (str ''id'') (str ''secret'')
      (world0\<lparr>tokens_file := Some (str ''{"access_token":"A"}'')\<rparr>))) (str ''expires_at'') = None
   \<and> get_prop (tokens (new_OAuthManager (str ''id'') (str ''secret'')
      (world0\<lparr>tokens_file := Some (str ''{"access_token":"A"}'')\<rparr>))) (str ''token_type'') = None\<close>
  by (simp add: new_OAuthManager_tokens parse_partial_record hasValidTokens_def keys_distinct)

text \<open>
  C5, amended. Constructing a manager never throws. Without tokens file, and with
  a file whose text is not JSON, the manager has no record; a record that was
  written only in part, up to any place before its end, is such a text. With a
  file whose text is JSON the record is the parsed value as it is, with no check
  of its fields, and \<open>hasValidTokens\<close> is true unless that value is \<open>null\<close>.
\<close>

theorem load_keeps_parsed_value:
  "(tokens_file w = None \<longrightarrow> \<not> hasValidTokens (new_OAuthManager cid secret w))
   \<and> (\<forall>data. tokens_file w = Some data \<and> JSON_parse data = None \<longrightarrow>
         \<not> hasValidTokens (new_OAuthManager cid secret w))
   \<and> (\<forall>a r e t n. \<bar>e\<bar> < 10 ^ 21 \<and> n < length (JSON_stringify (StoredTokens a r e t))
         \<and> tokens_file w = Some (take n (JSON_stringify (StoredTokens a r e t))) \<longrightarrow>
         \<not> hasValidTokens (new_OAuthManager cid secret w))
   \<and> (\<forall>data v. tokens_file w = Some data \<and> JSON_parse data = Some v \<longrightarrow>
         tokens (new_OAuthManager cid secret w) = v
         \<and> (hasValidTokens (new_OAuthManager cid secret w) \<longleftrightarrow> v \<noteq> JNull))"
  by (auto simp: new_OAuthManager_tokens hasValidTokens_def cut_StoredTokens)

theorem load_keeps_parsed_value_witness:
  \<open>\<not> hasValidTokens (new_OAuthManager (str ''id'') (str ''secret'') world0)
   \<and> \<not> hasValidTokens (new_OAuthManager (str ''id'') (str ''secret'')
        (world0\<lparr>tokens_file := Some (str ''{"access_token": "A1", "refresh_to'')\<rparr>))
   \<and> \<not> hasValidTokens (new_OAuthManager (str ''id'') (str ''secret'')
        (world0\<lparr>tokens_file := Some (take 40 (JSON_stringify
           (StoredTokens (str ''A1'') (str ''R1'') 3540000 (str ''Bearer''))))\<rparr>))
   \<and> tokens (new_OAuthManager (str ''id'') (str ''secret'')
        (world0\<lparr>tokens_file := Some (str ''{"access_token":"A"}'')\<rparr>))
      = JObj [(str ''access_token'', JStr (str ''A''))]
   \<and> hasValidTokens (new_OAuthManager (str ''id'') (str ''secret'')
        (world0\<lparr>tokens_file := Some (str ''{"access_token":"A"}'')\<rparr>))\<close>
proof -
  let ?text = "JSON_stringify (StoredTokens (str ''A1'') (str ''R1'') 3540000 (str ''Bearer''))"
  let ?cut = "world0\<lparr>tokens_file := Some (take 40 ?text)\<rparr>"
  have len: "40 < length ?text"
    by code_simp
  from load_keeps_parsed_value [of world0 "str ''id''" "str ''secret''"]
  have absent: "\<not> hasValidTokens (new_OAuthManager (str ''id'') (str ''secret'') world0)"
    by (simp add: world0_fields)
  from load_keeps_parsed_value
    [of \<open>world0\<lparr>tokens_file := Some (str ''{"access_token": "A1", "refresh_to'')\<rparr>\<close>
      "str ''id''" "str ''secret''"]
  have broken: \<open>\<not> hasValidTokens (new_OAuthManager (str ''id'') (str ''secret'')
        (world0\<lparr>tokens_file := Some (str ''{"access_token": "A1", "refresh_to'')\<rparr>))\<close>
    by (simp add: parse_cut_record)
  from load_keeps_parsed_value [of ?cut "str ''id''" "str ''secret''"]
  have "\<bar>3540000 :: int\<bar> < 10 ^ 21 \<and> 40 < length ?text
        \<and> tokens_file ?cut = Some (take 40 ?text) \<longrightarrow>
        \<not> hasValidTokens (new_OAuthManager (str ''id'') (str ''secret'') ?cut)"
    by blast
  with len have cut: "\<not> hasValidTokens (new_OAuthManager (str ''id'') (str ''secret'') ?cut)"
    by simp
  from load_keeps_parsed_value
    [of \<open>world0\<lparr>tokens_file := Some (str ''{"access_token":"A"}'')\<rparr>\<close> "str ''id''" "str ''secret''"]
  have partial: \<open>tokens (new_OAuthManager (str ''id'') (str ''secret'')
        (world0\<lparr>tokens_file := Some (str ''{"access_token":"A"}'')\<rparr>))
      = JObj [(str ''access_token'', JStr (str ''A''))]
   \<and> hasValidTokens (new_OAuthManager (str ''id'') (str ''secret'')
        (world0\<lparr>tokens_file := Some (str ''{"access_token":"A"}'')\<rparr>))\<close>
    by (simp add: parse_partial_record)
  from absent broken cut partial show ?thesis by blast
qed

text \<open>
  C6. When the token endpoint answers an authorization-code exchange with a status
  outside 200..299, \<open>exchangeCodeForTokens\<close> throws an error whose message carries
  the status and the body of the answer; the manager is returned as it was, the
  tokens file keeps its content, and a manager without record still has none.
\<close>

theorem exchange_failure_keeps_state:
  assumes "network w (length (sent w)) = (d, Resolved r)" and "\<not> ok r"
  shows "\<exists>w'. exchangeCodeForTokens code m w =
           (Inl (Error (str ''Token exchange failed ('' @ digits_of (status r) @ str ''): ''
                        @ body_text r)), m, w')
         \<and> tokens_file w' = tokens_file w
         \<and> (tokens m = JNull \<longrightarrow> \<not> hasValidTokens m)"
  using assms by (simp add: exchange_rejected hasValidTokens_def)

theorem exchange_failure_keeps_state_witness:
  "\<exists>w'. exchangeCodeForTokens (str ''code'') manager0 (answers (Resolved response_401) world0) =
           (Inl (Error (str ''Token exchange failed (401): invalid_grant'')), manager0, w')
         \<and> tokens_file w' = None \<and> \<not> hasValidTokens manager0"
proof -
  have d: "digits_of 401 = str ''401''"
    by (simp add: digits_of.simps str_def digit_char_def)
  have "str ''Token exchange failed ('' @ str ''401'' @ str ''): '' @ str ''invalid_grant''
      = str ''Token exchange failed (401): invalid_grant''"
    by (simp add: str_def)
  with exchange_failure_keeps_state [of "answers (Resolved response_401) world0" 0 response_401
      "str ''code''" manager0] d
  show ?thesis
    by (simp add: answers_def world0_def response_401_def ok_def manager0_def)
qed

text \<open>
  C7. When \<open>fetch\<close> rejects because no response arrives, an exchange and a refresh
  both pass that rejection on, which is no \<open>Error\<close> with a message of the program;
  the manager is returned as it was and the tokens file keeps its content. (A
  refresh calls \<open>fetch\<close> when the stored refresh token is truthy and converts to a
  string.)
\<close>

theorem network_failure_keeps_record:
  assumes "network w (length (sent w)) = (d, Rejected e)"
  shows "(\<exists>w'. exchangeCodeForTokens code m w = (Inl (FetchError e), m, w')
            \<and> tokens_file w' = tokens_file w)
       \<and> (\<forall>old s. stored_refresh_token m = Some old \<and> truthy old \<and> to_string old = Inr s \<longrightarrow>
            (\<exists>w'. refreshTokens m w = (Inl (FetchError e), m, w')
               \<and> tokens_file w' = tokens_file w))
       \<and> (\<forall>msg. FetchError e \<noteq> Error msg)"
  using assms by (simp add: exchange_network_failure refresh_network_failure)

theorem network_failure_keeps_record_witness:
  "(\<exists>w'. exchangeCodeForTokens (str ''code'') manager0 world0
            = (Inl (FetchError (str ''fetch failed'')), manager0, w')
          \<and> tokens_file w' = None)
   \<and> (\<exists>w'. refreshTokens
              (manager0\<lparr>tokens := StoredTokens (str ''A1'') (str ''R1'') 3540000 (str ''Bearer'')\<rparr>)
              (world0\<lparr>tokens_file := Some (str ''{}'')\<rparr>)
            = (Inl (FetchError (str ''fetch failed'')),
               manager0\<lparr>tokens := StoredTokens (str ''A1'') (str ''R1'') 3540000 (str ''Bearer'')\<rparr>, w')
          \<and> tokens_file w' = Some (str ''{}''))"
proof -
  let ?m = "manager0\<lparr>tokens := StoredTokens (str ''A1'') (str ''R1'') 3540000 (str ''Bearer'')\<rparr>"
  let ?w = "world0\<lparr>tokens_file := Some (str ''{}'')\<rparr>"
  have n0: "network world0 (length (sent world0)) = (0, Rejected (str ''fetch failed''))"
    by (simp add: world0_network)
  have n1: "network ?w (length (sent ?w)) = (0, Rejected (str ''fetch failed''))"
    by (simp add: world0_def)
  have rt: "stored_refresh_token ?m = Some (JStr (str ''R1'')) \<and> truthy (JStr (str ''R1''))
      \<and> to_string (JStr (str ''R1'')) = Inr (str ''R1'')"
    by (simp add: stored_refresh_token_def StoredTokens_props str_eq_Nil)
  from network_failure_keeps_record [OF n0, of "str ''code''" manager0]
  have a: "\<exists>w'. exchangeCodeForTokens (str ''code'') manager0 world0
            = (Inl (FetchError (str ''fetch failed'')), manager0, w')
          \<and> tokens_file w' = None"
    by (simp add: world0_fields)
  from network_failure_keeps_record [OF n1, of "str ''code''" ?m] rt
  have b: "\<exists>w'. refreshTokens ?m ?w = (Inl (FetchError (str ''fetch failed'')), ?m, w')
          \<and> tokens_file w' = Some (str ''{}'')"
    by simp
  from a b show ?thesis by blast
qed

text \<open>
  C8. A record with its four fields at their declared types, the expiry an integer
  of magnitude below \<open>10 ^ 21\<close> (every instant in milliseconds that JavaScript
  represents exactly is one), is read back by \<open>loadTokens\<close> exactly as
  \<open>saveTokens\<close> wrote it.
\<close>

theorem save_then_load:
  assumes "\<bar>e\<bar> < 10 ^ 21"
  shows "tokens (loadTokens m' (saveTokens (m\<lparr>tokens := StoredTokens a r e t\<rparr>) w))
           = StoredTokens a r e t
       \<and> tokens_file (saveTokens (m\<lparr>tokens := StoredTokens a r e t\<rparr>) w)
           = Some (JSON_stringify (StoredTokens a r e t))
       \<and> JSON_parse (JSON_stringify (StoredTokens a r e t)) = Some (StoredTokens a r e t)"
proof -
  have "tokens (loadTokens m' (saveTokens (m\<lparr>tokens := StoredTokens a r e t\<rparr>) w))
           = StoredTokens a r e t"
    by (simp add: load_saved_StoredTokens [OF assms])
  moreover have "tokens_file (saveTokens (m\<lparr>tokens := StoredTokens a r e t\<rparr>) w)
           = Some (JSON_stringify (StoredTokens a r e t))"
    by (simp add: saveTokens_def well_formed_StoredTokens [OF assms] StoredTokens_props)
  ultimately show ?thesis
    using parse_StoredTokens [OF assms] by simp
qed

theorem save_then_load_witness:
  "tokens (loadTokens manager0
      (saveTokens (manager0\<lparr>tokens := StoredTokens (str ''A1'') (str ''R1'') 3540000 (str ''Bearer'')\<rparr>)
         world0))
   = StoredTokens (str ''A1'') (str ''R1'') 3540000 (str ''Bearer'')"
  using save_then_load [where e = 3540000 and m = manager0 and m' = manager0 and w = world0
      and a = "str ''A1''" and r = "str ''R1''" and t = "str ''Bearer''"]
  by simp

text \<open>
  C9. \<open>getAuthorizationUrl\<close> depends on the client id alone: managers with the same
  client id give the same string, whatever their record, and the call leaves the
  manager and the world, with the requests sent, as they were. The string is the
  authorization endpoint, a question mark and a query that parses to exactly three
  parameters: \<open>response_type\<close> with value \<open>code\<close>, \<open>client_id\<close> with the client id,
  and \<open>redirect_uri\<close> with the out-of-band URN.
\<close>

theorem authorization_url_pure:
  "getAuthorizationUrl m =
     str ''https://api.sharesight.com/oauth2/authorize?response_type=code&client_id=''
     @ form_encode (clientId m)
     @ str ''&redirect_uri=urn%3Aietf%3Awg%3Aoauth%3A2.0%3Aoob''
   \<and> take (Suc (length AUTH_URL)) (getAuthorizationUrl m) = AUTH_URL @ [ch CHR ''?'']
   \<and> form_parse (drop (Suc (length AUTH_URL)) (getAuthorizationUrl m)) =
       [(utf8_encode (str ''response_type''), utf8_encode (str ''code'')),
        (utf8_encode (str ''client_id''), utf8_encode (clientId m)),
        (utf8_encode (str ''redirect_uri''), utf8_encode (str ''urn:ietf:wg:oauth:2.0:oob''))]
   \<and> (clientId m' = clientId m \<longrightarrow> getAuthorizationUrl m' = getAuthorizationUrl m)
   \<and> run_call GetAuthorizationUrl (m, w) = (m, w)"
proof -
  have "getAuthorizationUrl m = AUTH_URL @ ch CHR ''?'' #
     form_serialize [(str ''response_type'', str ''code''), (str ''client_id'', clientId m),
        (str ''redirect_uri'', REDIRECT_URI)]"
    by (simp add: getAuthorizationUrl_def)
  then have "take (Suc (length AUTH_URL)) (getAuthorizationUrl m) = AUTH_URL @ [ch CHR ''?'']"
    and "drop (Suc (length AUTH_URL)) (getAuthorizationUrl m) =
     form_serialize [(str ''response_type'', str ''code''), (str ''client_id'', clientId m),
        (str ''redirect_uri'', REDIRECT_URI)]"
    by simp_all
  moreover have "getAuthorizationUrl m' = getAuthorizationUrl m" if "clientId m' = clientId m"
    using that by (simp add: getAuthorizationUrl_def)
  ultimately show ?thesis
    using authorization_url_text [of m]
    by (simp add: form_parse_serialize REDIRECT_URI_def)
qed

theorem authorization_url_pure_witness:
  "getAuthorizationUrl manager0 =
     str ''https://api.sharesight.com/oauth2/authorize?response_type=code&client_id=id&redirect_uri=urn%3Aietf%3Awg%3Aoauth%3A2.0%3Aoob''
   \<and> getAuthorizationUrl
         (manager0\<lparr>tokens := StoredTokens (str ''A1'') (str ''R1'') 3540000 (str ''Bearer'')\<rparr>)
       = getAuthorizationUrl manager0"
proof -
  let ?m = "manager0\<lparr>tokens := StoredTokens (str ''A1'') (str ''R1'') 3540000 (str ''Bearer'')\<rparr>"
  have enc: "form_encode (str ''id'') = str ''id''" by code_simp
  have id: "clientId manager0 = str ''id''" "clientId ?m = clientId manager0"
    by (simp_all add: manager0_def)
  have cat: "str ''https://api.sharesight.com/oauth2/authorize?response_type=code&client_id=''
     @ str ''id'' @ str ''&redirect_uri=urn%3Aietf%3Awg%3Aoauth%3A2.0%3Aoob''
     = str ''https://api.sharesight.com/oauth2/authorize?response_type=code&client_id=id&redirect_uri=urn%3Aietf%3Awg%3Aoauth%3A2.0%3Aoob''"
    by (simp add: str_def)
  from authorization_url_pure [of manager0 ?m] id enc cat show ?thesis
    by simp
qed

text \<open>
  C10. \<open>refreshTokens\<close> throws "No refresh token available" when there is no
  record, and also when there is a record whose \<open>refresh_token\<close> is the empty
  string: the guard tests the stored refresh token for truthiness. In both cases
  the manager and the world come back as they were, so no request was sent and
  the file was not touched.
\<close>

theorem refresh_without_token:
  assumes "tokens m = JNull \<or> get_prop (tokens m) (str ''refresh_token'') = Some (JStr [])"
  shows "refreshTokens m w = (Inl (Error (str ''No refresh token available'')), m, w)"
  using assms by (intro refresh_no_token) (auto simp: stored_refresh_token_def)

theorem refresh_without_token_witness:
  "refreshTokens manager0 world0
     = (Inl (Error (str ''No refresh token available'')), manager0, world0)
   \<and> refreshTokens (manager0\<lparr>tokens := StoredTokens (str ''A1'') [] 3540000 (str ''Bearer'')\<rparr>)
        (answers (Resolved response_A2) world0)
     = (Inl (Error (str ''No refresh token available'')),
        manager0\<lparr>tokens := StoredTokens (str ''A1'') [] 3540000 (str ''Bearer'')\<rparr>,
        answers (Resolved response_A2) world0)"
  using refresh_without_token [of manager0 world0]
    refresh_without_token [of "manager0\<lparr>tokens := StoredTokens (str ''A1'') [] 3540000 (str ''Bearer'')\<rparr>"
      "answers (Resolved response_A2) world0"]
  by (simp add: manager0_def StoredTokens_def keys_distinct)

end
